theory Spec2Isabelle
  imports Main "HOL-Library.AList"
begin

section \<open>Data model\<close>

text \<open>
  The library works on caller-supplied Python structures. The embedding covers the
  JSON-shaped ones: \<open>None\<close>, \<open>bool\<close>, \<open>int\<close>, \<open>str\<close>, \<open>list\<close> and \<open>dict\<close> with
  \<open>str\<close> keys. A \<open>dict\<close> is an association list in insertion order; Python keeps its
  keys distinct. Tuples, floats and attribute-bearing objects are outside the model, so
  \<open>is_list_object\<close> holds exactly for lists and \<open>is_dict_object\<close> exactly for dicts:
  on the values of the model the second disjunct of the source, \<open>hasattr(obj, '__dict__')\<close>,
  is false. An attribute-bearing object passes that test, and the source then treats it
  unlike a dict (it has no \<open>pop\<close>, and \<open>key in obj\<close> raises \<open>TypeError\<close>); every statement
  below is about roots built of the values of the model. Strings are ASCII text.

  The source mutates the caller's structure in place. The root is taken to be a tree (no
  container is reachable along two paths), so a mutation of the object that a traversal
  reached is the replacement of the subtree at that position; every function returns the
  root as it is after the call. An exception ends the call: the result is then the
  exception alone. Each operation is modelled for one path string; given a list of paths
  the source applies it to each path in turn.
\<close>

datatype pyval =
    PNone
  | PBool bool
  | PInt int
  | PStr string
  | PList "pyval list"
  | PDict "(string \<times> pyval) list"

datatype error = TypeError | AttributeError | ValueError

datatype seg = Index int | Field string

fun is_list_object :: "pyval \<Rightarrow> bool" where
  "is_list_object (PList xs) = True"
| "is_list_object v = False"

fun is_dict_object :: "pyval \<Rightarrow> bool" where
  "is_dict_object (PDict d) = True"
| "is_dict_object v = False"

subsection \<open>Value accessor\<close>

text \<open>
  \<open>get_value\<close>, \<open>set_value\<close> and \<open>has_key\<close> are called on a dict with a \<open>str\<close> key, and on
  a list with an \<open>int\<close> key. On a dict they are \<open>obj.get(key, None)\<close>, \<open>obj[key] = value\<close>
  and \<open>key in obj\<close>. On a list the \<open>isinstance(obj, dict)\<close> test fails and the code goes
  on to \<open>hasattr(obj, key)\<close> or \<open>setattr(obj, key, value)\<close> with an \<open>int\<close> as attribute
  name, which raises \<open>TypeError\<close> whatever the list holds.
\<close>

definition get_value_dict :: "(string \<times> pyval) list \<Rightarrow> string \<Rightarrow> pyval" where
  "get_value_dict d k = (case map_of d k of Some v \<Rightarrow> v | None \<Rightarrow> PNone)"

definition has_key_dict :: "(string \<times> pyval) list \<Rightarrow> string \<Rightarrow> bool" where
  "has_key_dict d k = (map_of d k \<noteq> None)"

definition set_value_dict :: "(string \<times> pyval) list \<Rightarrow> string \<Rightarrow> pyval \<Rightarrow> (string \<times> pyval) list" where
  "set_value_dict d k v = AList.update k v d"

definition get_value_list :: "pyval list \<Rightarrow> int \<Rightarrow> error + pyval" where
  "get_value_list xs k = Inl TypeError"

definition set_value_list :: "pyval list \<Rightarrow> int \<Rightarrow> pyval \<Rightarrow> error + pyval list" where
  "set_value_list xs k v = Inl TypeError"

text \<open>
  The last assignment of \<open>set\<close> calls \<open>set_value\<close> with a \<open>str\<close> key on whatever the
  traversal reached. On anything but a dict this is \<open>setattr\<close> on a built-in object,
  which raises \<open>AttributeError\<close> (\<open>TypeError\<close> for the name \<open>__class__\<close>).
\<close>

fun set_value :: "pyval \<Rightarrow> string \<Rightarrow> pyval \<Rightarrow> error + pyval" where
  "set_value (PDict d) k v = Inr (PDict (set_value_dict d k v))"
| "set_value obj k v = Inl (if k = ''__class__'' then TypeError else AttributeError)"

subsection \<open>Path resolver\<close>

text \<open>\<open>str.split(sep)\<close> for a one-character separator: never an empty list.\<close>

fun split_on :: "char \<Rightarrow> string \<Rightarrow> string list" where
  "split_on c [] = [[]]"
| "split_on c (x # xs) =
     (if x = c then [] # split_on c xs
      else (case split_on c xs of s # ss \<Rightarrow> (x # s) # ss | [] \<Rightarrow> [[x]]))"

definition is_digit :: "char \<Rightarrow> bool" where
  "is_digit c = (c \<in> set ''0123456789'')"

text \<open>
  \<open>str.isdigit()\<close> on ASCII text: at least one character, all of them digits. Outside
  ASCII \<open>str.isdigit()\<close> also accepts characters that \<open>int()\<close> rejects, such as the
  superscript two; on a path with such a segment \<open>_parse_key\<close> raises \<open>ValueError\<close> in
  every operation. Those paths are not ASCII text and no statement below is about them.
\<close>

definition isdigit :: "string \<Rightarrow> bool" where
  "isdigit s = (s \<noteq> [] \<and> list_all is_digit s)"

definition digit_val :: "char \<Rightarrow> nat" where
  "digit_val c = of_char c - 48"

definition nat_of_digits :: "string \<Rightarrow> nat" where
  "nat_of_digits s = foldl (\<lambda>n c. 10 * n + digit_val c) 0 s"

definition is_space :: "char \<Rightarrow> bool" where
  "is_space c = (of_char c \<in> {9, 10, 11, 12, 13, 32 :: nat})"

definition strip :: "string \<Rightarrow> string" where
  "strip s = rev (dropWhile is_space (rev (dropWhile is_space s)))"

text \<open>
  \<open>int(s)\<close> on ASCII text: surrounding whitespace is dropped, one sign is allowed, and the
  rest is groups of digits joined by single underscores. Anything else is a
  \<open>ValueError\<close>.
\<close>

definition int_digits :: "string \<Rightarrow> error + int" where
  "int_digits s =
     (let groups = split_on (CHR ''_'') s
      in if list_all isdigit groups then Inr (int (nat_of_digits (concat groups)))
         else Inl ValueError)"

definition py_int :: "string \<Rightarrow> error + int" where
  "py_int s =
     (case strip s of
        c # r \<Rightarrow>
          (if c = CHR ''-'' then (case int_digits r of Inl e \<Rightarrow> Inl e | Inr n \<Rightarrow> Inr (- n))
           else if c = CHR ''+'' then int_digits r
           else int_digits (c # r))
      | [] \<Rightarrow> Inl ValueError)"

definition startswith :: "string \<Rightarrow> string \<Rightarrow> bool" where
  "startswith s p = (take (length p) s = p)"

definition parse_key :: "string \<Rightarrow> string option \<Rightarrow> error + seg" where
  "parse_key key index_prefix =
     (case index_prefix of
        Some p \<Rightarrow>
          (if startswith key p
           then (case py_int (drop (length p) key) of Inl e \<Rightarrow> Inl e | Inr k \<Rightarrow> Inr (Index k))
           else Inr (Field key))
      | None \<Rightarrow>
          (if isdigit key
           then (case py_int key of Inl e \<Rightarrow> Inl e | Inr k \<Rightarrow> Inr (Index k))
           else Inr (Field key)))"

subsection \<open>Traversal\<close>

text \<open>
  \<open>_traverse\<close> without \<open>create_missing\<close>. It changes nothing and returns the node
  reached, or \<open>None\<close>. At an Index segment on a list the read \<open>get_value(obj, k)\<close> raises
  \<open>TypeError\<close>, which the \<open>except (IndexError, TypeError)\<close> clause turns into \<open>None\<close>.
\<close>

fun traverse :: "pyval \<Rightarrow> string list \<Rightarrow> string option \<Rightarrow> error + pyval" where
  "traverse obj [] index_prefix = Inr obj"
| "traverse obj (key # keys) index_prefix =
     (case parse_key key index_prefix of
        Inl e \<Rightarrow> Inl e
      | Inr (Index k) \<Rightarrow>
          (case obj of
             PList xs \<Rightarrow>
               (case get_value_list xs k of
                  Inl e \<Rightarrow> Inr PNone
                | Inr child \<Rightarrow> if child = PNone then Inr PNone else traverse child keys index_prefix)
           | _ \<Rightarrow> Inr PNone)
      | Inr (Field k) \<Rightarrow>
          (case obj of
             PDict d \<Rightarrow>
               (let child = get_value_dict d k
                in if child = PNone then Inr PNone else traverse child keys index_prefix)
           | _ \<Rightarrow> Inr PNone))"

subsection \<open>set\<close>

text \<open>\<open>while k >= len(current): current.append(filler)\<close>\<close>

definition grow :: "pyval list \<Rightarrow> int \<Rightarrow> pyval \<Rightarrow> pyval list" where
  "grow xs k filler = xs @ replicate (nat (k + 1 - int (length xs))) filler"

text \<open>\<open>current.clear() if isinstance(current, dict) else None\<close>, and the same for a list.\<close>

fun clear_dict :: "pyval \<Rightarrow> pyval" where
  "clear_dict (PDict d) = PDict []"
| "clear_dict v = v"

fun clear_list :: "pyval \<Rightarrow> pyval" where
  "clear_list (PList xs) = PList []"
| "clear_list v = v"

text \<open>
  The last segment of \<open>set\<close>. The result is \<open>current\<close> as the tree holds it afterwards.
  When \<open>current\<close> is of the wrong shape for an Index, the code clears it if it is a dict
  and rebinds the local variable to a new list: what happens to that list is not seen
  from the tree. The Field branch tests \<open>is_dict_object(dict)\<close>, the type \<open>dict\<close> itself,
  which has a \<open>__dict__\<close>: the test holds and the coercion under it never runs.
\<close>

definition set_last :: "pyval \<Rightarrow> string \<Rightarrow> pyval \<Rightarrow> string option \<Rightarrow> error + pyval" where
  "set_last current key v index_prefix =
     (case parse_key key index_prefix of
        Inl e \<Rightarrow> Inl e
      | Inr (Index k) \<Rightarrow>
          (let xs = grow (case current of PList xs0 \<Rightarrow> xs0 | _ \<Rightarrow> []) k PNone
           in case set_value_list xs k v of
                Inl e \<Rightarrow> Inl e
              | Inr xs' \<Rightarrow> Inr (case current of PList xs0 \<Rightarrow> PList xs' | _ \<Rightarrow> clear_dict current))
      | Inr (Field k) \<Rightarrow> set_value current k v)"

text \<open>
  The loop of \<open>set\<close> over \<open>keys[:-1]\<close>, followed by the last segment. At a Field segment
  the child is a container after the test of line 160, and the recursive call works on
  it; the child it returns is written back under the same key, which is the in-place
  mutation seen from the parent.
\<close>

fun set_loop :: "pyval \<Rightarrow> string list \<Rightarrow> string \<Rightarrow> pyval \<Rightarrow> string option \<Rightarrow> error + pyval" where
  "set_loop current [] last_key v index_prefix = set_last current last_key v index_prefix"
| "set_loop current (key # keys) last_key v index_prefix =
     (case parse_key key index_prefix of
        Inl e \<Rightarrow> Inl e
      | Inr (Index k) \<Rightarrow>
          (let xs = grow (case current of PList xs0 \<Rightarrow> xs0 | _ \<Rightarrow> []) k (PDict [])
           in case get_value_list xs k of
                Inl e \<Rightarrow> Inl e
              | Inr child \<Rightarrow>
                  (case set_loop child keys last_key v index_prefix of
                     Inl e \<Rightarrow> Inl e
                   | Inr child' \<Rightarrow>
                       Inr (case current of
                              PList xs0 \<Rightarrow> PList (xs[nat k := child'])
                            | _ \<Rightarrow> clear_dict current)))
      | Inr (Field k) \<Rightarrow>
          (let d = (case current of PDict d0 \<Rightarrow> d0 | _ \<Rightarrow> []);
               d1 = (if \<not> has_key_dict d k
                        \<or> \<not> (is_dict_object (get_value_dict d k) \<or> is_list_object (get_value_dict d k))
                     then set_value_dict d k (PDict []) else d)
           in case set_loop (get_value_dict d1 k) keys last_key v index_prefix of
                Inl e \<Rightarrow> Inl e
              | Inr child' \<Rightarrow>
                  Inr (case current of
                         PDict d0 \<Rightarrow> PDict (set_value_dict d1 k child')
                       | _ \<Rightarrow> clear_list current)))"

definition set_py :: "pyval \<Rightarrow> string \<Rightarrow> pyval \<Rightarrow> string option \<Rightarrow> error + pyval" where
  "set_py obj path v index_prefix =
     (let keys = split_on (CHR ''.'') path
      in set_loop obj (butlast keys) (last keys) v index_prefix)"

text \<open>
  The shape under which the loop of \<open>set\<close> stays on the tree: \<open>current\<close> is a dict at
  every Field segment, that is, the root is a dict and no key of \<open>keys[:-1]\<close> leads to a
  list. A missing key or a scalar on the way is no obstacle: line 161 puts a new dict
  there.
\<close>

fun compatible :: "pyval \<Rightarrow> string list \<Rightarrow> bool" where
  "compatible cur [] = is_dict_object cur"
| "compatible cur (k # ks) =
     (case cur of
        PDict d \<Rightarrow>
          (case map_of d k of
             Some (PList xs) \<Rightarrow> False
           | Some (PDict e) \<Rightarrow> compatible (PDict e) ks
           | _ \<Rightarrow> True)
      | _ \<Rightarrow> False)"

subsection \<open>has\<close>

text \<open>\<open>xs[k]\<close> on a list: a negative index counts from the end; \<open>None\<close> is \<open>IndexError\<close>.\<close>

definition list_index :: "pyval list \<Rightarrow> int \<Rightarrow> pyval option" where
  "list_index xs k =
     (let n = int (length xs); j = (if k < 0 then k + n else k)
      in if 0 \<le> j \<and> j < n then Some (xs ! nat j) else None)"

text \<open>
  The loop of \<open>has\<close>. It returns the last value of \<open>current\<close>, or \<open>None\<close> where the source
  returns \<open>False\<close>. Unlike the traversal it reads a list with \<open>current[k]\<close>.
\<close>

fun has_loop :: "pyval \<Rightarrow> string list \<Rightarrow> string option \<Rightarrow> error + pyval option" where
  "has_loop current [] index_prefix = Inr (Some current)"
| "has_loop current (key # keys) index_prefix =
     (case parse_key key index_prefix of
        Inl e \<Rightarrow> Inl e
      | Inr (Index k) \<Rightarrow>
          (case current of
             PList xs \<Rightarrow>
               (case list_index xs k of
                  None \<Rightarrow> Inr None
                | Some child \<Rightarrow> has_loop child keys index_prefix)
           | _ \<Rightarrow> Inr None)
      | Inr (Field k) \<Rightarrow>
          (case current of
             PDict d \<Rightarrow>
               (if \<not> has_key_dict d k then Inr None
                else has_loop (get_value_dict d k) keys index_prefix)
           | _ \<Rightarrow> Inr None))"

definition has :: "pyval \<Rightarrow> string \<Rightarrow> string option \<Rightarrow> error + bool" where
  "has obj path index_prefix =
     (case has_loop obj (split_on (CHR ''.'') path) index_prefix of
        Inl e \<Rightarrow> Inl e
      | Inr r \<Rightarrow> Inr (r \<noteq> None))"

subsection \<open>get without a query\<close>

text \<open>\<open>get(obj, path, default, index_prefix)\<close> with \<open>query=None\<close>, as \<open>_match\<close> calls it.\<close>

definition get0 :: "pyval \<Rightarrow> string \<Rightarrow> pyval \<Rightarrow> string option \<Rightarrow> error + pyval" where
  "get0 obj path dflt index_prefix =
     (case traverse obj (split_on (CHR ''.'') path) index_prefix of
        Inl e \<Rightarrow> Inl e
      | Inr result \<Rightarrow> Inr (if result = PNone then dflt else result))"

section \<open>Python comparisons on the model values\<close>

text \<open>
  \<open>==\<close>: \<open>bool\<close> is a subtype of \<open>int\<close> (\<open>True == 1\<close>); lists are equal elementwise; dicts
  are equal when they have as many keys and every key of the left one has an equal value
  in the right one, whatever the insertion order. \<open>!=\<close> is its negation on these types.
\<close>

fun py_eq :: "pyval \<Rightarrow> pyval \<Rightarrow> bool"
  and py_eq_list :: "pyval list \<Rightarrow> pyval list \<Rightarrow> bool"
  and py_eq_items :: "(string \<times> pyval) list \<Rightarrow> (string \<times> pyval) list \<Rightarrow> bool" where
  "py_eq PNone b = (b = PNone)"
| "py_eq (PBool x) b =
     (case b of PBool y \<Rightarrow> x = y | PInt n \<Rightarrow> (if x then 1 else 0) = n | _ \<Rightarrow> False)"
| "py_eq (PInt m) b =
     (case b of PInt n \<Rightarrow> m = n | PBool y \<Rightarrow> m = (if y then 1 else 0) | _ \<Rightarrow> False)"
| "py_eq (PStr s) b = (b = PStr s)"
| "py_eq (PList xs) b = (case b of PList ys \<Rightarrow> py_eq_list xs ys | _ \<Rightarrow> False)"
| "py_eq (PDict d) b =
     (case b of PDict e \<Rightarrow> length d = length e \<and> py_eq_items d e | _ \<Rightarrow> False)"
| "py_eq_list [] ys = (ys = [])"
| "py_eq_list (x # xs) ys =
     (case ys of [] \<Rightarrow> False | y # ys' \<Rightarrow> py_eq x y \<and> py_eq_list xs ys')"
| "py_eq_items [] e = True"
| "py_eq_items (kv # d) e =
     (case map_of e (fst kv) of None \<Rightarrow> False | Some w \<Rightarrow> py_eq (snd kv) w \<and> py_eq_items d e)"

datatype cmp = Lt | Le | Gt | Ge

fun int_cmp :: "cmp \<Rightarrow> int \<Rightarrow> int \<Rightarrow> bool" where
  "int_cmp Lt a b = (a < b)"
| "int_cmp Le a b = (a \<le> b)"
| "int_cmp Gt a b = (a > b)"
| "int_cmp Ge a b = (a \<ge> b)"

text \<open>Strings are ordered by code point, lexicographically.\<close>

fun str_lt :: "string \<Rightarrow> string \<Rightarrow> bool" where
  "str_lt [] t = (t \<noteq> [])"
| "str_lt (x # xs) [] = False"
| "str_lt (x # xs) (y # ys) =
     ((of_char x :: nat) < of_char y \<or> (x = y \<and> str_lt xs ys))"

fun str_cmp :: "cmp \<Rightarrow> string \<Rightarrow> string \<Rightarrow> bool" where
  "str_cmp Lt s t = str_lt s t"
| "str_cmp Le s t = (\<not> str_lt t s)"
| "str_cmp Gt s t = str_lt t s"
| "str_cmp Ge s t = (\<not> str_lt s t)"

text \<open>
  \<open><\<close>, \<open><=\<close>, \<open>>\<close>, \<open>>=\<close>: defined between numbers (\<open>bool\<close> counts as \<open>int\<close>), between
  strings and between lists; every other pair, \<open>None\<close> and dicts included, raises
  \<open>TypeError\<close>. Lists compare at the first position where the elements are not equal,
  and by length when there is none.
\<close>

fun py_cmp :: "cmp \<Rightarrow> pyval \<Rightarrow> pyval \<Rightarrow> error + bool"
  and py_cmp_list :: "cmp \<Rightarrow> pyval list \<Rightarrow> pyval list \<Rightarrow> error + bool" where
  "py_cmp c (PBool x) b =
     (case b of PBool y \<Rightarrow> Inr (int_cmp c (if x then 1 else 0) (if y then 1 else 0))
      | PInt n \<Rightarrow> Inr (int_cmp c (if x then 1 else 0) n)
      | _ \<Rightarrow> Inl TypeError)"
| "py_cmp c (PInt m) b =
     (case b of PBool y \<Rightarrow> Inr (int_cmp c m (if y then 1 else 0))
      | PInt n \<Rightarrow> Inr (int_cmp c m n)
      | _ \<Rightarrow> Inl TypeError)"
| "py_cmp c (PStr s) b = (case b of PStr t \<Rightarrow> Inr (str_cmp c s t) | _ \<Rightarrow> Inl TypeError)"
| "py_cmp c (PList xs) b = (case b of PList ys \<Rightarrow> py_cmp_list c xs ys | _ \<Rightarrow> Inl TypeError)"
| "py_cmp c PNone b = Inl TypeError"
| "py_cmp c (PDict d) b = Inl TypeError"
| "py_cmp_list c [] ys = Inr (int_cmp c 0 (int (length ys)))"
| "py_cmp_list c (x # xs) ys =
     (case ys of
        [] \<Rightarrow> Inr (int_cmp c 1 0)
      | y # ys' \<Rightarrow> if py_eq x y then py_cmp_list c xs ys' else py_cmp c x y)"

fun is_substring :: "string \<Rightarrow> string \<Rightarrow> bool" where
  "is_substring t [] = (t = [])"
| "is_substring t (c # s) = (startswith (c # s) t \<or> is_substring t s)"

text \<open>
  \<open>x in c\<close>: membership by \<open>==\<close> in a list; key lookup in a dict, which hashes \<open>x\<close> and so
  raises \<open>TypeError\<close> for a list or a dict; substring test in a string, which wants a
  string on the left; \<open>TypeError\<close> when \<open>c\<close> is not iterable.
\<close>

fun py_in :: "pyval \<Rightarrow> pyval \<Rightarrow> error + bool" where
  "py_in x (PList ys) = Inr (list_ex (py_eq x) ys)"
| "py_in x (PDict d) =
     (case x of
        PList xs \<Rightarrow> Inl TypeError
      | PDict e \<Rightarrow> Inl TypeError
      | PStr s \<Rightarrow> Inr (has_key_dict d s)
      | _ \<Rightarrow> Inr False)"
| "py_in x (PStr s) = (case x of PStr t \<Rightarrow> Inr (is_substring t s) | _ \<Rightarrow> Inl TypeError)"
| "py_in x c = Inl TypeError"

fun py_len :: "pyval \<Rightarrow> error + int" where
  "py_len (PList xs) = Inr (int (length xs))"
| "py_len (PDict d) = Inr (int (length d))"
| "py_len (PStr s) = Inr (int (length s))"
| "py_len v = Inl TypeError"

section \<open>The predicate evaluator of the traversal side\<close>

text \<open>
  One operator of an operator mapping in \<open>_match\<close>, \<open>$len\<close> apart. \<open>Inr True\<close>: the loop
  goes on; \<open>Inr False\<close>: \<open>return False\<close>. The ordered comparisons test
  \<open>doc_value is not None\<close> first. A name that is none of the listed operators raises
  \<open>ValueError\<close>.
\<close>

definition ordered :: "cmp \<Rightarrow> pyval \<Rightarrow> pyval \<Rightarrow> error + bool" where
  "ordered c doc_value v = (if doc_value = PNone then Inr False else py_cmp c doc_value v)"

definition match_op :: "string \<Rightarrow> pyval \<Rightarrow> pyval \<Rightarrow> error + bool" where
  "match_op op doc_value v =
     (if op = ''$eq'' then Inr (py_eq doc_value v)
      else if op = ''$ne'' then Inr (\<not> py_eq doc_value v)
      else if op = ''$gt'' then ordered Gt doc_value v
      else if op = ''$gte'' then ordered Ge doc_value v
      else if op = ''$lt'' then ordered Lt doc_value v
      else if op = ''$lte'' then ordered Le doc_value v
      else if op = ''$in'' then py_in doc_value v
      else if op = ''$nin'' then (case py_in doc_value v of Inl e \<Rightarrow> Inl e | Inr b \<Rightarrow> Inr (\<not> b))
      else Inl ValueError)"

text \<open>
  \<open>_match(document, query)\<close>. \<open>match_keys\<close> is the loop over \<open>query.items()\<close> and
  \<open>match_ops\<close> the loop over an operator mapping; \<open>match_and\<close> and \<open>match_or\<close> are
  \<open>all(...)\<close> and \<open>any(...)\<close> over the value of \<open>$and\<close> and \<open>$or\<close>, which stop at the first
  sub-query that decides. Iterating a dict or a string gives strings, on which \<open>_match\<close>
  is \<open>False\<close>; anything else but a list is not iterable. At \<open>$len\<close> with a dict \<open>v\<close> the
  source calls \<open>_match({"$len": _len}, v)\<close>.
\<close>

fun match_doc :: "pyval \<Rightarrow> pyval \<Rightarrow> error + bool"
  and match_keys :: "pyval \<Rightarrow> (string \<times> pyval) list \<Rightarrow> error + bool"
  and match_and :: "pyval \<Rightarrow> pyval \<Rightarrow> error + bool"
  and match_all :: "pyval \<Rightarrow> pyval list \<Rightarrow> error + bool"
  and match_or :: "pyval \<Rightarrow> pyval \<Rightarrow> error + bool"
  and match_any :: "pyval \<Rightarrow> pyval list \<Rightarrow> error + bool"
  and match_field :: "pyval \<Rightarrow> pyval \<Rightarrow> error + bool"
  and match_ops :: "pyval \<Rightarrow> (string \<times> pyval) list \<Rightarrow> error + bool" where
  "match_doc document (PDict items) = match_keys document items"
| "match_doc document query = Inr False"
| "match_keys document [] = Inr True"
| "match_keys document ((key, v) # rest) =
     (case (if key = ''$and'' then match_and document v
            else if key = ''$or'' then match_or document v
            else if key = ''$not'' then
              (case match_doc document v of Inl e \<Rightarrow> Inl e | Inr b \<Rightarrow> Inr (\<not> b))
            else
              (case get0 document key PNone None of
                 Inl e \<Rightarrow> Inl e
               | Inr doc_value \<Rightarrow> match_field doc_value v)) of
        Inl e \<Rightarrow> Inl e
      | Inr b \<Rightarrow> if b then match_keys document rest else Inr False)"
| "match_and document (PList qs) = match_all document qs"
| "match_and document (PDict d) = Inr (d = [])"
| "match_and document (PStr s) = Inr (s = [])"
| "match_and document v = Inl TypeError"
| "match_all document [] = Inr True"
| "match_all document (q # qs) =
     (case match_doc document q of
        Inl e \<Rightarrow> Inl e
      | Inr b \<Rightarrow> if b then match_all document qs else Inr False)"
| "match_or document (PList qs) = match_any document qs"
| "match_or document (PDict d) = Inr False"
| "match_or document (PStr s) = Inr False"
| "match_or document v = Inl TypeError"
| "match_any document [] = Inr False"
| "match_any document (q # qs) =
     (case match_doc document q of
        Inl e \<Rightarrow> Inl e
      | Inr b \<Rightarrow> if b then Inr True else match_any document qs)"
| "match_field doc_value (PDict ops) = match_ops doc_value ops"
| "match_field doc_value v = Inr (py_eq doc_value v)"
| "match_ops doc_value [] = Inr True"
| "match_ops doc_value ((op, v) # rest) =
     (case (if op = ''$len'' then
              (case py_len doc_value of
                 Inl e \<Rightarrow> Inl e
               | Inr n \<Rightarrow>
                   if is_dict_object v then match_doc (PDict [(''$len'', PInt n)]) v
                   else Inr (py_eq (PInt n) v))
            else match_op op doc_value v) of
        Inl e \<Rightarrow> Inl e
      | Inr b \<Rightarrow> if b then match_ops doc_value rest else Inr False)"

subsection \<open>get\<close>

text \<open>
  The filter of \<open>get\<close>: the items that are dicts and match the query, in order; the first
  evaluation that raises ends it.
\<close>

fun filter_query :: "pyval list \<Rightarrow> pyval \<Rightarrow> error + pyval list" where
  "filter_query [] query = Inr []"
| "filter_query (item # items) query =
     (if is_dict_object item then
        (case match_doc item query of
           Inl e \<Rightarrow> Inl e
         | Inr b \<Rightarrow>
             (case filter_query items query of
                Inl e \<Rightarrow> Inl e
              | Inr r \<Rightarrow> Inr (if b then item # r else r)))
      else filter_query items query)"

text \<open>\<open>get\<close> for one path; \<open>query = PNone\<close> is no query.\<close>

definition get :: "pyval \<Rightarrow> string \<Rightarrow> pyval \<Rightarrow> string option \<Rightarrow> pyval \<Rightarrow> error + pyval" where
  "get obj path dflt index_prefix query =
     (case traverse obj (split_on (CHR ''.'') path) index_prefix of
        Inl e \<Rightarrow> Inl e
      | Inr result \<Rightarrow>
          (case (if result \<noteq> PNone \<and> query \<noteq> PNone then
                   (case result of
                      PList items \<Rightarrow>
                        (case filter_query items query of
                           Inl e \<Rightarrow> Inl e
                         | Inr r \<Rightarrow> Inr (PList r))
                    | _ \<Rightarrow> Inr result)
                 else Inr result) of
             Inl e \<Rightarrow> Inl e
           | Inr result' \<Rightarrow> Inr (if result' = PNone then dflt else result')))"

section \<open>The predicate evaluator of the collection queries\<close>

text \<open>
  \<open>all(f(x) for x in xs)\<close> and \<open>any(f(x) for x in xs)\<close> where \<open>f\<close> may raise: evaluation
  goes left to right and stops at the first exception or the first deciding value.
\<close>

fun all_e :: "('a \<Rightarrow> error + bool) \<Rightarrow> 'a list \<Rightarrow> error + bool" where
  "all_e f [] = Inr True"
| "all_e f (x # xs) =
     (case f x of Inl e \<Rightarrow> Inl e | Inr b \<Rightarrow> if b then all_e f xs else Inr False)"

fun any_e :: "('a \<Rightarrow> error + bool) \<Rightarrow> 'a list \<Rightarrow> error + bool" where
  "any_e f [] = Inr False"
| "any_e f (x # xs) =
     (case f x of Inl e \<Rightarrow> Inl e | Inr b \<Rightarrow> if b then Inr True else any_e f xs)"

lemma all_e_cong [fundef_cong]:
  "xs = ys \<Longrightarrow> (\<And>x. x \<in> set ys \<Longrightarrow> f x = g x) \<Longrightarrow> all_e f xs = all_e g ys"
  by (induction ys arbitrary: xs) (auto split: sum.splits)

lemma any_e_cong [fundef_cong]:
  "xs = ys \<Longrightarrow> (\<And>x. x \<in> set ys \<Longrightarrow> f x = g x) \<Longrightarrow> any_e f xs = any_e g ys"
  by (induction ys arbitrary: xs) (auto split: sum.splits)

lemma size_list_elem: "x \<in> set xs \<Longrightarrow> size x < Suc (size_list size xs)"
  by (induction xs) auto

lemma size_dict_value:
  "map_of q k = Some v \<Longrightarrow> size v < Suc (size_list (size_prod (\<lambda>_. 0) size) q)"
  by (induction q) (auto split: if_splits)

text \<open>
  \<open>re.search\<close> is not part of the repository: the evaluator takes it as the parameter
  \<open>rs pattern text ignorecase multiline\<close>, which tells whether the pattern is found in
  the text, or raises.
\<close>

type_synonym regex_search = "pyval \<Rightarrow> string \<Rightarrow> bool \<Rightarrow> bool \<Rightarrow> error + bool"

text \<open>
  One instance, for the statements that are evaluated on concrete inputs: a search that
  never finds anything. Every theorem about the evaluator holds for all \<open>rs\<close>.
\<close>

definition no_regex :: regex_search where
  "no_regex pattern text ignorecase multiline = Inr False"

text \<open>The flags of \<open>$regex\<close>: \<open>'i' in options\<close> and \<open>'m' in options\<close> when \<open>$options\<close> is a key.\<close>

definition regex_flags :: "(string \<times> pyval) list \<Rightarrow> error + (bool \<times> bool)" where
  "regex_flags condition =
     (if has_key_dict condition ''$options'' then
        (let options = get_value_dict condition ''$options''
         in case py_in (PStr ''i'') options of
              Inl e \<Rightarrow> Inl e
            | Inr i \<Rightarrow>
                (case py_in (PStr ''m'') options of
                   Inl e \<Rightarrow> Inl e
                 | Inr m \<Rightarrow> Inr (i, m)))
      else Inr (False, False))"

text \<open>
  One operator of a condition in \<open>match_condition\<close>. \<open>Inr True\<close>: the loop goes on;
  \<open>Inr False\<close>: \<open>return False\<close>. The comparisons are made on \<open>value\<close> as it is, \<open>None\<close>
  included. A name that is no operator compares \<open>value\<close> with the whole condition.
\<close>

definition cond_op :: "regex_search \<Rightarrow> pyval \<Rightarrow> (string \<times> pyval) list \<Rightarrow> string \<Rightarrow> pyval \<Rightarrow> error + bool" where
  "cond_op rs v condition op op_val =
     (if op = ''$regex'' then
        (case regex_flags condition of
           Inl e \<Rightarrow> Inl e
         | Inr fl \<Rightarrow> (case v of PStr s \<Rightarrow> rs op_val s (fst fl) (snd fl) | _ \<Rightarrow> Inr False))
      else if op = ''$lt'' then py_cmp Lt v op_val
      else if op = ''$lte'' then py_cmp Le v op_val
      else if op = ''$gt'' then py_cmp Gt v op_val
      else if op = ''$gte'' then py_cmp Ge v op_val
      else if op = ''$in'' then py_in v op_val
      else if op = ''$nin'' then (case py_in v op_val of Inl e \<Rightarrow> Inl e | Inr b \<Rightarrow> Inr (\<not> b))
      else if op = ''$options'' then Inr True
      else Inr (py_eq v (PDict condition)))"

definition match_condition :: "regex_search \<Rightarrow> pyval \<Rightarrow> string \<Rightarrow> pyval \<Rightarrow> error + bool" where
  "match_condition rs item key condition =
     (case get0 item key PNone None of
        Inl e \<Rightarrow> Inl e
      | Inr v \<Rightarrow>
          (case condition of
             PDict ops \<Rightarrow> all_e (\<lambda>(op, op_val). cond_op rs v ops op op_val) ops
           | _ \<Rightarrow> Inr (py_eq v condition)))"

text \<open>
  \<open>match_item\<close> on a query that is not a dict: \<open>'$and' in query\<close> and \<open>'$or' in query\<close> are
  evaluated as the type of \<open>query\<close> allows; when one holds, \<open>query['$and']\<close> raises
  \<open>TypeError\<close>, and when none does, \<open>query.items()\<close> raises \<open>AttributeError\<close>.
\<close>

definition nondict_error :: "pyval \<Rightarrow> error" where
  "nondict_error query =
     (case py_in (PStr ''$and'') query of
        Inl e \<Rightarrow> e
      | Inr b \<Rightarrow>
          if b then TypeError
          else (case py_in (PStr ''$or'') query of
                  Inl e \<Rightarrow> e
                | Inr b' \<Rightarrow> if b' then TypeError else AttributeError))"

text \<open>
  \<open>match_item(item, query)\<close>. Under \<open>$and\<close> and \<open>$or\<close> the value is iterated: a list gives
  its sub-queries; a dict gives its keys and a string its characters, which are strings,
  so that the first of them raises as above; anything else is not iterable.
\<close>

function match_item :: "regex_search \<Rightarrow> pyval \<Rightarrow> pyval \<Rightarrow> error + bool" where
  "match_item rs item query =
     (case query of
        PDict q \<Rightarrow>
          (if has_key_dict q ''$and'' then
             (case get_value_dict q ''$and'' of
                PList subs \<Rightarrow> all_e (match_item rs item) subs
              | PDict d \<Rightarrow>
                  (case d of [] \<Rightarrow> Inr True | kv # _ \<Rightarrow> Inl (nondict_error (PStr (fst kv))))
              | PStr s \<Rightarrow>
                  (case s of [] \<Rightarrow> Inr True | c # _ \<Rightarrow> Inl (nondict_error (PStr [c])))
              | _ \<Rightarrow> Inl TypeError)
           else if has_key_dict q ''$or'' then
             (case get_value_dict q ''$or'' of
                PList subs \<Rightarrow> any_e (match_item rs item) subs
              | PDict d \<Rightarrow>
                  (case d of [] \<Rightarrow> Inr False | kv # _ \<Rightarrow> Inl (nondict_error (PStr (fst kv))))
              | PStr s \<Rightarrow>
                  (case s of [] \<Rightarrow> Inr False | c # _ \<Rightarrow> Inl (nondict_error (PStr [c])))
              | _ \<Rightarrow> Inl TypeError)
           else all_e (\<lambda>(k, v). match_condition rs item k v) q)
      | _ \<Rightarrow> Inl (nondict_error query))"
  by pat_completeness auto
termination
proof (relation "measure (\<lambda>(rs, item, query). size query)", goal_cases)
  case 1
  show ?case by simp
next
  case (2 rs item query q subs x)
  then have m: "map_of q ''$and'' = Some (PList subs)"
    by (auto simp: has_key_dict_def get_value_dict_def split: option.splits)
  from size_dict_value[OF m] size_list_elem[OF 2(4)] 2(1) show ?case
    by simp
next
  case (3 rs item query q subs x)
  then have m: "map_of q ''$or'' = Some (PList subs)"
    by (auto simp: has_key_dict_def get_value_dict_def split: option.splits)
  from size_dict_value[OF m] size_list_elem[OF 3(5)] 3(1) show ?case
    by simp
qed

declare match_item.simps [simp del]

fun find_first :: "regex_search \<Rightarrow> pyval list \<Rightarrow> pyval \<Rightarrow> error + pyval" where
  "find_first rs [] query = Inr PNone"
| "find_first rs (item # items) query =
     (case match_item rs item query of
        Inl e \<Rightarrow> Inl e
      | Inr b \<Rightarrow> if b then Inr item else find_first rs items query)"

fun find_all :: "regex_search \<Rightarrow> pyval list \<Rightarrow> pyval \<Rightarrow> error + pyval list" where
  "find_all rs [] query = Inr []"
| "find_all rs (item # items) query =
     (case match_item rs item query of
        Inl e \<Rightarrow> Inl e
      | Inr b \<Rightarrow>
          (case find_all rs items query of
             Inl e \<Rightarrow> Inl e
           | Inr r \<Rightarrow> Inr (if b then item # r else r)))"

section \<open>The mutating operations\<close>

text \<open>
  An object that \<open>_traverse(obj, keys)\<close> returns and that is not \<open>None\<close> was reached from
  \<open>obj\<close> through dict values only, one key after the other (an Index segment never
  descends). A mutation of that object is seen from \<open>obj\<close> as the replacement of the
  value at that position.
\<close>

fun put_at :: "pyval \<Rightarrow> string list \<Rightarrow> pyval \<Rightarrow> pyval" where
  "put_at obj [] new = new"
| "put_at obj (key # keys) new =
     (case obj of
        PDict d \<Rightarrow>
          (case map_of d key of
             Some child \<Rightarrow> PDict (set_value_dict d key (put_at child keys new))
           | None \<Rightarrow> obj)
      | _ \<Rightarrow> obj)"

subsection \<open>delete\<close>

text \<open>\<open>xs.pop(k)\<close> for \<open>0 <= k < len(xs)\<close>, and \<open>d.pop(k, None)\<close>.\<close>

definition list_pop :: "pyval list \<Rightarrow> nat \<Rightarrow> pyval list" where
  "list_pop xs k = take k xs @ drop (Suc k) xs"

definition dict_pop :: "(string \<times> pyval) list \<Rightarrow> string \<Rightarrow> (string \<times> pyval) list" where
  "dict_pop d k = AList.delete k d"

definition delete :: "pyval \<Rightarrow> string \<Rightarrow> string option \<Rightarrow> error + pyval" where
  "delete obj path index_prefix =
     (let keys = split_on (CHR ''.'') path
      in case traverse obj (butlast keys) index_prefix of
           Inl e \<Rightarrow> Inl e
         | Inr parent \<Rightarrow>
             if parent = PNone then Inr obj
             else
               (case parse_key (last keys) index_prefix of
                  Inl e \<Rightarrow> Inl e
                | Inr (Index k) \<Rightarrow>
                    (case parent of
                       PList xs \<Rightarrow>
                         if 0 \<le> k \<and> k < int (length xs)
                         then Inr (put_at obj (butlast keys) (PList (list_pop xs (nat k))))
                         else Inr obj
                     | _ \<Rightarrow> Inr obj)
                | Inr (Field k) \<Rightarrow>
                    (case parent of
                       PDict d \<Rightarrow> Inr (put_at obj (butlast keys) (PDict (dict_pop d k)))
                     | _ \<Rightarrow> Inr obj)))"

subsection \<open>push\<close>

text \<open>
  \<open>_traverse\<close> with \<open>create_missing=True\<close>. The result is \<open>obj\<close> as it is afterwards, the
  value returned, and whether that value is part of \<open>obj\<close>. Where \<open>obj\<close> has the wrong
  shape for the segment the code clears it, if it is a container of the other kind, and
  goes on with a new container bound to the local variable only: nothing done from there
  on reaches the tree. At an Index segment the list is grown with empty dicts and the
  read that follows raises \<open>TypeError\<close>, caught as \<open>None\<close>.
\<close>

fun traverse_create :: "pyval \<Rightarrow> string list \<Rightarrow> string option \<Rightarrow> error + (pyval \<times> pyval \<times> bool)" where
  "traverse_create obj [] index_prefix = Inr (obj, obj, True)"
| "traverse_create obj (key # keys) index_prefix =
     (case parse_key key index_prefix of
        Inl e \<Rightarrow> Inl e
      | Inr (Index k) \<Rightarrow>
          (let xs = grow (case obj of PList xs0 \<Rightarrow> xs0 | _ \<Rightarrow> []) k (PDict []);
               obj' = (case obj of PList xs0 \<Rightarrow> PList xs | _ \<Rightarrow> clear_dict obj)
           in case get_value_list xs k of
                Inl e \<Rightarrow> Inr (obj', PNone, True)
              | Inr child \<Rightarrow>
                  if child = PNone then Inr (obj', PNone, True)
                  else
                    (case traverse_create child keys index_prefix of
                       Inl e \<Rightarrow> Inl e
                     | Inr (child', r, a) \<Rightarrow>
                         Inr ((case obj of
                                 PList xs0 \<Rightarrow> PList (xs[nat k := child'])
                               | _ \<Rightarrow> clear_dict obj),
                              r, a \<and> is_list_object obj)))
      | Inr (Field k) \<Rightarrow>
          (let d = (case obj of PDict d0 \<Rightarrow> d0 | _ \<Rightarrow> []);
               d1 = (if \<not> has_key_dict d k then set_value_dict d k (PDict []) else d);
               child = get_value_dict d1 k
           in if child = PNone
              then Inr ((case obj of PDict d0 \<Rightarrow> PDict d1 | _ \<Rightarrow> clear_list obj), PNone, True)
              else
                (case traverse_create child keys index_prefix of
                   Inl e \<Rightarrow> Inl e
                 | Inr (child', r, a) \<Rightarrow>
                     Inr ((case obj of
                             PDict d0 \<Rightarrow> PDict (set_value_dict d1 k child')
                           | _ \<Rightarrow> clear_list obj),
                          r, a \<and> is_dict_object obj))))"

definition push :: "pyval \<Rightarrow> string \<Rightarrow> pyval \<Rightarrow> string option \<Rightarrow> error + pyval" where
  "push obj path v index_prefix =
     (let keys = split_on (CHR ''.'') path
      in case traverse_create obj keys index_prefix of
           Inl e \<Rightarrow> Inl e
         | Inr (obj1, target, attached) \<Rightarrow>
             (case target of
                PList xs \<Rightarrow> Inr (if attached then put_at obj1 keys (PList (xs @ [v])) else obj1)
              | _ \<Rightarrow> set_py obj1 path (PList [v]) index_prefix))"

subsection \<open>pull\<close>

text \<open>\<open>isinstance(index, int)\<close>: an \<open>int\<close>, or a \<open>bool\<close>, which counts as 0 or 1.\<close>

fun int_of :: "pyval \<Rightarrow> int option" where
  "int_of (PInt n) = Some n"
| "int_of (PBool b) = Some (if b then 1 else 0)"
| "int_of v = None"

text \<open>
  The indexes of the documents that are dicts and match the sub-query, counted from
  \<open>idx\<close>, and their removal from the highest index down.
\<close>

fun q_indexes :: "pyval list \<Rightarrow> pyval \<Rightarrow> nat \<Rightarrow> error + nat list" where
  "q_indexes [] query idx = Inr []"
| "q_indexes (doc # docs) query idx =
     (if \<not> is_dict_object doc then q_indexes docs query (Suc idx)
      else
        (case match_doc doc query of
           Inl e \<Rightarrow> Inl e
         | Inr b \<Rightarrow>
             (case q_indexes docs query (Suc idx) of
                Inl e \<Rightarrow> Inl e
              | Inr r \<Rightarrow> Inr (if b then idx # r else r))))"

definition pop_all :: "pyval list \<Rightarrow> nat list \<Rightarrow> pyval list" where
  "pop_all xs idxs = foldl list_pop xs (rev idxs)"

text \<open>
  What \<open>pull\<close> does to the target list: the list afterwards. \<open>value = PNone\<close> and
  \<open>index = PNone\<close> are the arguments left out.
\<close>

definition pull_list :: "pyval list \<Rightarrow> pyval \<Rightarrow> pyval \<Rightarrow> error + pyval list" where
  "pull_list target_list v index =
     (let by_value =
            (if v \<noteq> PNone then
               (if is_dict_object v then
                  (case q_indexes target_list v 0 of
                     Inl e \<Rightarrow> Inl e
                   | Inr idxs \<Rightarrow> Inr (pop_all target_list idxs))
                else Inr (filter (\<lambda>x. \<not> py_eq x v) target_list))
             else Inr target_list)
      in case int_of index of
           Some i \<Rightarrow>
             if 0 \<le> i \<and> i < int (length target_list) then Inr (list_pop target_list (nat i))
             else by_value
         | None \<Rightarrow> by_value)"

text \<open>
  \<open>pull\<close> for one path. With an Index as last segment on a list, in range, the test of
  line 228 goes on to \<open>get_value(parent, last_key)\<close>, which raises \<open>TypeError\<close> outside
  any \<open>try\<close>.
\<close>

definition pull :: "pyval \<Rightarrow> string \<Rightarrow> pyval \<Rightarrow> pyval \<Rightarrow> string option \<Rightarrow> error + pyval" where
  "pull obj path v index index_prefix =
     (let keys = split_on (CHR ''.'') path
      in case traverse obj (butlast keys) index_prefix of
           Inl e \<Rightarrow> Inl e
         | Inr parent \<Rightarrow>
             if parent = PNone then Inr obj
             else
               (case parse_key (last keys) index_prefix of
                  Inl e \<Rightarrow> Inl e
                | Inr (Index k) \<Rightarrow>
                    (case parent of
                       PList xs \<Rightarrow>
                         if 0 \<le> k \<and> k < int (length xs)
                         then
                           (case get_value_list xs k of
                              Inl e \<Rightarrow> Inl e
                            | Inr (PList target_list) \<Rightarrow>
                                (case pull_list target_list v index of
                                   Inl e \<Rightarrow> Inl e
                                 | Inr new_list \<Rightarrow>
                                     Inr (put_at obj (butlast keys)
                                            (PList (xs[nat k := PList new_list]))))
                            | Inr t \<Rightarrow> Inr obj)
                         else Inr obj
                     | _ \<Rightarrow> Inr obj)
                | Inr (Field k) \<Rightarrow>
                    (case parent of
                       PDict d \<Rightarrow>
                         (if has_key_dict d k then
                            (case get_value_dict d k of
                               PList target_list \<Rightarrow>
                                 (case pull_list target_list v index of
                                    Inl e \<Rightarrow> Inl e
                                  | Inr new_list \<Rightarrow>
                                      Inr (put_at obj (butlast keys)
                                             (PDict (set_value_dict d k (PList new_list)))))
                             | _ \<Rightarrow> Inr obj)
                          else Inr obj)
                     | _ \<Rightarrow> Inr obj)))"

section \<open>Properties\<close>

subsection \<open>Path segments under the default index prefix\<close>

lemma is_digit_cases:
  "is_digit c \<Longrightarrow> \<not> is_space c \<and> c \<noteq> CHR ''-'' \<and> c \<noteq> CHR ''+'' \<and> c \<noteq> CHR ''_''"
  by (auto simp: is_digit_def is_space_def)

lemma split_on_absent: "c \<notin> set s \<Longrightarrow> split_on c s = [s]"
  by (induction s) auto

lemma split_on_nonempty: "split_on c s \<noteq> []"
  by (induction s) (auto split: list.splits)

lemma strip_digits: "list_all is_digit s \<Longrightarrow> strip s = s"
proof -
  assume a: "list_all is_digit s"
  have d: "\<And>t. list_all is_digit t \<Longrightarrow> dropWhile is_space t = t"
    by (case_tac t) (auto simp: is_digit_cases)
  from a have "list_all is_digit (rev s)" by (simp add: list_all_iff)
  with a d show ?thesis by (simp add: strip_def)
qed

lemma py_int_digits: "isdigit s \<Longrightarrow> py_int s = Inr (int (nat_of_digits s))"
proof -
  assume a: "isdigit s"
  then obtain c r where s: "s = c # r" by (cases s) (auto simp: isdigit_def)
  from a have all: "list_all is_digit s" by (simp add: isdigit_def)
  then have "CHR ''_'' \<notin> set s" using is_digit_cases by (auto simp: list_all_iff)
  then have sp: "split_on (CHR ''_'') s = [s]" by (rule split_on_absent)
  from all s have c: "c \<noteq> CHR ''-''" "c \<noteq> CHR ''+''" using is_digit_cases by auto
  have "int_digits s = Inr (int (nat_of_digits s))"
    using a sp by (simp add: int_digits_def)
  then show ?thesis using strip_digits[OF all] s c by (simp add: py_int_def)
qed

text \<open>Without an index prefix no segment is malformed: digits are an Index, the rest a Field.\<close>

lemma parse_key_None:
  "parse_key key None = Inr (if isdigit key then Index (int (nat_of_digits key)) else Field key)"
  by (simp add: parse_key_def py_int_digits)

subsection \<open>set and push on a path with an Index segment\<close>

lemma set_last_index: "isdigit key \<Longrightarrow> set_last cur key v None = Inl TypeError"
  by (simp add: set_last_def parse_key_None set_value_list_def)

lemma set_loop_index:
  "isdigit key \<Longrightarrow> key \<in> set (keys @ [last_key]) \<Longrightarrow>
   set_loop cur keys last_key v None = Inl TypeError"
proof (induction keys arbitrary: cur)
  case Nil
  then show ?case by (simp add: set_last_index)
next
  case (Cons k ks)
  show ?case
  proof (cases "isdigit k")
    case True
    then show ?thesis by (simp add: parse_key_None get_value_list_def)
  next
    case False
    with Cons.prems have "key \<in> set (ks @ [last_key])" by auto
    from Cons.IH[OF Cons.prems(1) this] False show ?thesis
      by (simp add: parse_key_None Let_def)
  qed
qed

lemma set_py_index:
  "isdigit key \<Longrightarrow> key \<in> set (split_on (CHR ''.'') path) \<Longrightarrow>
   set_py root path v None = Inl TypeError"
proof -
  assume a: "isdigit key" and b: "key \<in> set (split_on (CHR ''.'') path)"
  define ks where "ks = split_on (CHR ''.'') path"
  have "ks \<noteq> []" by (simp add: ks_def split_on_nonempty)
  then have e: "butlast ks @ [last ks] = ks" by simp
  have "key \<in> set (butlast ks @ [last ks])" unfolding e using b by (simp add: ks_def)
  from set_loop_index[OF a this] show ?thesis by (simp add: set_py_def ks_def)
qed

lemma traverse_create_total: "\<exists>r. traverse_create obj keys None = Inr r"
proof (induction keys arbitrary: obj)
  case Nil
  show ?case by auto
next
  case (Cons k ks)
  show ?case
  proof (cases "isdigit k")
    case True
    then show ?thesis by (auto simp add: parse_key_None get_value_list_def Let_def)
  next
    case False
    let ?d = "case obj of PDict d0 \<Rightarrow> d0 | _ \<Rightarrow> []"
    let ?d1 = "if \<not> has_key_dict ?d k then set_value_dict ?d k (PDict []) else ?d"
    from Cons.IH[of "get_value_dict ?d1 k"]
    obtain r where "traverse_create (get_value_dict ?d1 k) ks None = Inr r" by blast
    with False show ?thesis by (auto simp add: parse_key_None Let_def split: prod.splits)
  qed
qed

lemma traverse_create_index:
  "isdigit key \<Longrightarrow> key \<in> set keys \<Longrightarrow> traverse_create obj keys None = Inr (o1, t, a) \<Longrightarrow>
   t = PNone"
proof (induction keys arbitrary: obj o1 t a)
  case Nil
  then show ?case by simp
next
  case (Cons k ks)
  show ?case
  proof (cases "isdigit k")
    case True
    with Cons.prems(3) show ?thesis by (simp add: parse_key_None get_value_list_def Let_def)
  next
    case False
    with Cons.prems have m: "key \<in> set ks" by auto
    from False Cons.prems(3) Cons.IH[OF Cons.prems(1) m] show ?thesis
      by (auto simp add: parse_key_None Let_def split: if_splits sum.splits prod.splits)
  qed
qed

text \<open>
  C1. The spec's scenario: from the empty mapping, \<open>set(root, "a.b.0.c", 5)\<close> is to
  leave \<open>{"a": {"b": [{"c": 5}]}}\<close>. In the code the call does not return: at the
  segment \<open>0\<close> the dict under \<open>b\<close> is cleared, a new list bound to the local variable is
  grown to \<open>[{}]\<close>, and reading it with \<open>get_value(current, 0)\<close> raises \<open>TypeError\<close>.
\<close>

theorem set_scenario_raises:
  "set_py (PDict []) ''a.b.0.c'' (PInt 5) None = Inl TypeError"
  by (simp add: set_py_def parse_key_None isdigit_def is_digit_def
      has_key_dict_def get_value_dict_def set_value_dict_def get_value_list_def)

text \<open>
  C2. The round trip \<open>get(set(root, p, v), p) == v\<close> is claimed for paths of Field and
  Index segments. In the code, for every root and value, \<open>set\<close> on a path that has an
  Index segment raises \<open>TypeError\<close>, so there is no state to read back.
\<close>

theorem set_index_segment_raises:
  "isdigit key \<Longrightarrow> key \<in> set (split_on (CHR ''.'') path) \<Longrightarrow>
   set_py root path v None = Inl TypeError"
  by (rule set_py_index)

theorem set_index_segment_raises_witness:
  "isdigit ''0'' \<and> ''0'' \<in> set (split_on (CHR ''.'') ''a.0.b'') \<and>
   set_py (PDict [(''a'', PList [PDict []])]) ''a.0.b'' (PInt 5) None = Inl TypeError"
proof -
  have a: "isdigit ''0''" by (simp add: isdigit_def is_digit_def)
  have b: "''0'' \<in> set (split_on (CHR ''.'') ''a.0.b'')" by simp
  from a b set_index_segment_raises[OF a b] show ?thesis by simp
qed

text \<open>
  C7. \<open>push\<close> on an absent path, then \<open>get\<close>, is claimed to give \<open>[v]\<close> for every path. In
  the code, for every root and value, \<open>push\<close> on a path that has an Index segment raises
  \<open>TypeError\<close>: the creating traversal returns \<open>None\<close> at that segment, and the call of
  \<open>set\<close> that follows raises.
\<close>

theorem push_index_segment_raises:
  "isdigit key \<Longrightarrow> key \<in> set (split_on (CHR ''.'') path) \<Longrightarrow>
   push root path v None = Inl TypeError"
proof -
  assume a: "isdigit key" and b: "key \<in> set (split_on (CHR ''.'') path)"
  obtain o1 t at where r: "traverse_create root (split_on (CHR ''.'') path) None = Inr (o1, t, at)"
    using traverse_create_total[of root "split_on (CHR ''.'') path"] by (metis prod_cases3)
  from traverse_create_index[OF a b r] have "t = PNone" .
  with r set_py_index[OF a b] show ?thesis by (simp add: push_def)
qed

theorem push_index_segment_raises_witness:
  "isdigit ''0'' \<and> ''0'' \<in> set (split_on (CHR ''.'') ''a.0'') \<and>
   push (PDict []) ''a.0'' (PInt 1) None = Inl TypeError"
proof -
  have a: "isdigit ''0''" by (simp add: isdigit_def is_digit_def)
  have b: "''0'' \<in> set (split_on (CHR ''.'') ''a.0'')" by simp
  from a b push_index_segment_raises[OF a b] show ?thesis by simp
qed

subsection \<open>find_first and find_all\<close>

lemma find_all_filter:
  "find_all rs items q = Inr r \<Longrightarrow> r = filter (\<lambda>i. match_item rs i q = Inr True) items"
  by (induction items arbitrary: r) (auto split: sum.splits if_splits)

lemma find_first_head:
  "find_all rs items q = Inr r \<Longrightarrow>
   find_first rs items q = Inr (case r of [] \<Rightarrow> PNone | x # xs \<Rightarrow> x)"
  by (induction items arbitrary: r) (auto split: sum.splits if_splits list.splits)

lemma find_first_nomatch:
  "\<forall>i \<in> set items. match_item rs i q = Inr False \<Longrightarrow> find_first rs items q = Inr PNone"
  by (induction items) (auto split: sum.splits if_splits)

text \<open>
  C6. Whenever \<open>find_all(items, query)\<close> returns, its result is the items that match, in
  their original order, and \<open>find_first(items, query)\<close> returns the first element of that
  result, or \<open>None\<close> when the result is empty. When every item evaluates to no match,
  \<open>find_first\<close> returns \<open>None\<close>.
\<close>

theorem find_first_find_all:
  "(find_all rs items q = Inr r \<longrightarrow>
      r = filter (\<lambda>i. match_item rs i q = Inr True) items \<and>
      find_first rs items q = Inr (case r of [] \<Rightarrow> PNone | x # xs \<Rightarrow> x)) \<and>
   ((\<forall>i \<in> set items. match_item rs i q = Inr False) \<longrightarrow> find_first rs items q = Inr PNone)"
  using find_all_filter find_first_head find_first_nomatch by blast

theorem find_first_find_all_witness:
  "find_all no_regex [PDict [(''age'', PInt 5)], PDict [(''age'', PInt 10)]]
         (PDict [(''age'', PDict [(''$gte'', PInt 7)])]) = Inr [PDict [(''age'', PInt 10)]] \<and>
   find_first no_regex [PDict [(''age'', PInt 5)], PDict [(''age'', PInt 10)]]
         (PDict [(''age'', PDict [(''$gte'', PInt 7)])]) = Inr (PDict [(''age'', PInt 10)]) \<and>
   match_item no_regex (PDict [(''age'', PInt 5)])
         (PDict [(''age'', PDict [(''$gte'', PInt 7)])]) = Inr False \<and>
   find_first no_regex [PDict [(''age'', PInt 5)]]
         (PDict [(''age'', PDict [(''$gte'', PInt 7)])]) = Inr PNone"
proof -
  let ?q = "PDict [(''age'', PDict [(''$gte'', PInt 7)])]"
  let ?a = "PDict [(''age'', PInt 5)]"
  let ?b = "PDict [(''age'', PInt 10)]"
  have a: "find_all no_regex [?a, ?b] ?q = Inr [?b]" by code_simp
  have b: "match_item no_regex ?a ?q = Inr False" by code_simp
  from find_first_find_all[of no_regex "[?a, ?b]" ?q "[?b]"] a
  have c: "find_first no_regex [?a, ?b] ?q = Inr ?b" by simp
  from find_first_find_all[of no_regex "[?a]" ?q "[]"] b
  have d: "find_first no_regex [?a] ?q = Inr PNone" by simp
  from a b c d show ?thesis by simp
qed

subsection \<open>A stored null\<close>

text \<open>
  Where the loop of \<open>has\<close> reaches a node, the traversal reaches the same node or gives
  up with \<open>None\<close> before it.
\<close>

lemma has_loop_traverse:
  "has_loop obj keys ip = Inr (Some cur) \<Longrightarrow>
   traverse obj keys ip = Inr PNone \<or> traverse obj keys ip = Inr cur"
proof (induction keys arbitrary: obj)
  case Nil
  then show ?case by simp
next
  case (Cons k ks)
  then show ?case
    by (auto simp: get_value_list_def Let_def
        split: sum.splits seg.splits pyval.splits option.splits if_splits)
qed

text \<open>
  C10. When every segment of the path is present and the value at the end is \<open>None\<close>,
  \<open>get(root, p, default)\<close> returns the default, as for an absent path, while
  \<open>has(root, p)\<close> is true. This holds for every index prefix.
\<close>

theorem null_value:
  "has_loop root (split_on (CHR ''.'') path) ip = Inr (Some PNone) \<Longrightarrow>
   get root path dflt ip PNone = Inr dflt \<and> has root path ip = Inr True"
proof -
  assume a: "has_loop root (split_on (CHR ''.'') path) ip = Inr (Some PNone)"
  from has_loop_traverse[OF a]
  have "traverse root (split_on (CHR ''.'') path) ip = Inr PNone" by auto
  with a show ?thesis by (simp add: get_def has_def)
qed

theorem null_value_witness:
  "has_loop (PDict [(''a'', PDict [(''b'', PNone)])]) (split_on (CHR ''.'') ''a.b'') None
     = Inr (Some PNone) \<and>
   get (PDict [(''a'', PDict [(''b'', PNone)])]) ''a.b'' (PInt 7) None PNone = Inr (PInt 7) \<and>
   has (PDict [(''a'', PDict [(''b'', PNone)])]) ''a.b'' None = Inr True"
proof -
  have a: "has_loop (PDict [(''a'', PDict [(''b'', PNone)])]) (split_on (CHR ''.'') ''a.b'') None
             = Inr (Some PNone)"
    by code_simp
  from a null_value[OF a, of "PInt 7"] show ?thesis by simp
qed

subsection \<open>The two predicate evaluators\<close>

lemma traverse_total: "\<exists>r. traverse obj keys None = Inr r"
proof (induction keys arbitrary: obj)
  case Nil
  show ?case by simp
next
  case (Cons k ks)
  show ?case
  proof (cases "isdigit k")
    case True
    then show ?thesis
      by (auto simp: parse_key_None get_value_list_def split: pyval.splits)
  next
    case False
    show ?thesis
    proof (cases obj)
      case (PDict d)
      from Cons.IH[of "get_value_dict d k"]
      obtain r where "traverse (get_value_dict d k) ks None = Inr r" by blast
      with False PDict show ?thesis by (auto simp: parse_key_None Let_def)
    qed (use False in \<open>auto simp: parse_key_None\<close>)
  qed
qed

lemma get0_total: "\<exists>v. get0 obj path dflt None = Inr v"
  using traverse_total[of obj "split_on (CHR ''.'') path"] by (auto simp: get0_def)


text \<open>A query of one field that is neither \<open>$and\<close> nor \<open>$or\<close> is the condition on that field.\<close>

lemma match_item_single:
  "key \<notin> {''$and'', ''$or''} \<Longrightarrow>
   match_item rs item (PDict [(key, cond)]) =
     (case match_condition rs item key cond of Inl e \<Rightarrow> Inl e | Inr b \<Rightarrow> Inr b)"
proof -
  assume "key \<notin> {''$and'', ''$or''}"
  then have "''$and'' \<noteq> key" "''$or'' \<noteq> key" by auto
  then show ?thesis
    by (simp add: match_item.simps[of rs item "PDict [(key, cond)]"] has_key_dict_def
        split: sum.splits)
qed

lemma match_item_ordered_absent:
  "op \<in> {''$lt'', ''$lte'', ''$gt'', ''$gte''} \<Longrightarrow> key \<notin> {''$and'', ''$or''} \<Longrightarrow>
   get0 item key PNone None = Inr PNone \<Longrightarrow>
   match_item rs item (PDict [(key, PDict [(op, x)])]) = Inl TypeError"
  by (auto simp add: match_item_single match_condition_def cond_op_def)

lemma match_doc_ordered_absent:
  "op \<in> {''$lt'', ''$lte'', ''$gt'', ''$gte''} \<Longrightarrow> key \<notin> {''$and'', ''$or'', ''$not''} \<Longrightarrow>
   get0 doc key PNone None = Inr PNone \<Longrightarrow>
   match_doc doc (PDict [(key, PDict [(op, x)])]) = Inr False"
  by (auto simp add: match_op_def ordered_def)










text \<open>
  An error raised inside a sub-query of \<open>$and\<close>, \<open>$or\<close> or \<open>$not\<close> is the result of the
  enclosing query as soon as the evaluation reaches that sub-query: \<open>all\<close> reaches it when
  the sub-queries before it matched, \<open>any\<close> when none of them did.
\<close>

lemma match_all_raises:
  "match_doc doc q = Inl e \<Longrightarrow>
   match_all doc (qs1 @ q # qs2) =
     (case match_all doc qs1 of Inl e' \<Rightarrow> Inl e' | Inr b \<Rightarrow> if b then Inl e else Inr False)"
proof (induction qs1)
  case Nil
  then show ?case by simp
next
  case (Cons a qs1)
  show ?case
  proof (cases "match_doc doc a")
    case (Inl e')
    then show ?thesis by simp
  next
    case (Inr b)
    with Cons show ?thesis by simp
  qed
qed

lemma match_any_raises:
  "match_doc doc q = Inl e \<Longrightarrow>
   match_any doc (qs1 @ q # qs2) =
     (case match_any doc qs1 of Inl e' \<Rightarrow> Inl e' | Inr b \<Rightarrow> if b then Inr True else Inl e)"
proof (induction qs1)
  case Nil
  then show ?case by simp
next
  case (Cons a qs1)
  show ?case
  proof (cases "match_doc doc a")
    case (Inl e')
    then show ?thesis by simp
  next
    case (Inr b)
    with Cons show ?thesis by simp
  qed
qed

lemma match_not_raises:
  "match_doc doc q = Inl e \<Longrightarrow> match_keys doc ((''$not'', q) # rest) = Inl e"
  by simp

lemma nested_unknown_raises:
  "match_doc (PDict [(''a'', PInt 1)])
     (PDict [(''$and'', PList [PDict [(''a'', PInt 1)], PDict [(''a'', PDict [(''$foo'', PInt 1)])]])])
     = Inl ValueError \<and>
   match_doc (PDict [(''a'', PInt 1)])
     (PDict [(''$or'', PList [PDict [(''a'', PInt 2)], PDict [(''a'', PDict [(''$foo'', PInt 1)])]])])
     = Inl ValueError \<and>
   match_doc (PDict [(''a'', PInt 1)]) (PDict [(''$not'', PDict [(''a'', PDict [(''$foo'', PInt 1)])])])
     = Inl ValueError \<and>
   match_doc (PDict [(''a'', PInt 1)])
     (PDict [(''$or'', PList [PDict [(''a'', PInt 1)], PDict [(''a'', PDict [(''$foo'', PInt 1)])]])])
     = Inr True"
  by code_simp




text \<open>
  C4. The spec: an ordered comparison against an absent value is false and never raises,
  in both evaluators. In \<open>_match\<close> it is false. In \<open>match_condition\<close> the comparison
  \<open>value < op_val\<close> is made on \<open>None\<close> and raises \<open>TypeError\<close>, which ends \<open>find_all\<close> and
  \<open>find_first\<close> as soon as they meet such an item.
\<close>

theorem ordered_comparison_absent:
  "op \<in> {''$lt'', ''$lte'', ''$gt'', ''$gte''} \<Longrightarrow>
   key \<notin> {''$and'', ''$or'', ''$not''} \<Longrightarrow>
   get0 item key PNone None = Inr PNone \<Longrightarrow>
   match_doc item (PDict [(key, PDict [(op, x)])]) = Inr False \<and>
   find_all rs (item # items) (PDict [(key, PDict [(op, x)])]) = Inl TypeError \<and>
   find_first rs (item # items) (PDict [(key, PDict [(op, x)])]) = Inl TypeError"
proof -
  assume o: "op \<in> {''$lt'', ''$lte'', ''$gt'', ''$gte''}"
    and k: "key \<notin> {''$and'', ''$or'', ''$not''}"
    and g: "get0 item key PNone None = Inr PNone"
  from k have k': "key \<notin> {''$and'', ''$or''}" by simp
  from match_item_ordered_absent[OF o k' g]
  have "match_item rs item (PDict [(key, PDict [(op, x)])]) = Inl TypeError" .
  with match_doc_ordered_absent[OF o k g] show ?thesis by simp
qed

theorem ordered_comparison_absent_witness:
  "get0 (PDict [(''name'', PStr ''x'')]) ''age'' PNone None = Inr PNone \<and>
   match_doc (PDict [(''name'', PStr ''x'')]) (PDict [(''age'', PDict [(''$gt'', PInt 1)])])
     = Inr False \<and>
   find_all no_regex [PDict [(''name'', PStr ''x'')]] (PDict [(''age'', PDict [(''$gt'', PInt 1)])])
     = Inl TypeError \<and>
   find_first no_regex [PDict [(''name'', PStr ''x'')]] (PDict [(''age'', PDict [(''$gt'', PInt 1)])])
     = Inl TypeError"
proof -
  have o: "''$gt'' \<in> {''$lt'', ''$lte'', ''$gt'', ''$gte''}" by simp
  have k: "''age'' \<notin> {''$and'', ''$or'', ''$not''}" by simp
  have g: "get0 (PDict [(''name'', PStr ''x'')]) ''age'' PNone None = Inr PNone" by code_simp
  from g ordered_comparison_absent[OF o k g, of "PInt 1" no_regex "[]"] show ?thesis by simp
qed

lemma get0_len_doc: "get0 (PDict [(''$len'', PInt m)]) ''$gt'' PNone None = Inr PNone"
  by (simp add: get0_def parse_key_None isdigit_def is_digit_def get_value_dict_def)

lemma py_len_error: "py_len v = Inl e \<Longrightarrow> e = TypeError"
  by (cases v) auto

text \<open>With a value that is not a dict, \<open>$len\<close> compares the length with it.\<close>

lemma len_exact:
  "key \<notin> {''$and'', ''$or'', ''$not''} \<Longrightarrow> get0 doc key PNone None = Inr dv \<Longrightarrow>
   py_len dv = Inr m \<Longrightarrow> \<not> is_dict_object v \<Longrightarrow>
   match_doc doc (PDict [(key, PDict [(''$len'', v)])]) = Inr (py_eq (PInt m) v)"
  by simp

text \<open>
  C5. The spec: \<open>{"tags": {"$len": {"$gt": 3}}}\<close> matches exactly the documents whose
  \<open>tags\<close> are longer than 3. In the code the inner mapping is evaluated by
  \<open>_match({"$len": _len}, {"$gt": 3})\<close>, which reads \<open>$gt\<close> as the name of a field of the
  document \<open>{"$len": _len}\<close>; that field is absent and \<open>None != 3\<close>, so the query matches
  no document at all: the result is \<open>False\<close>, or \<open>TypeError\<close> when the value has no
  length. A document with four tags is not matched.
\<close>

theorem len_operator_mapping_never_matches:
  "(match_doc doc (PDict [(''tags'', PDict [(''$len'', PDict [(''$gt'', PInt n)])])]) = Inr False
    \<or> match_doc doc (PDict [(''tags'', PDict [(''$len'', PDict [(''$gt'', PInt n)])])])
        = Inl TypeError)
   \<and> match_doc (PDict [(''tags'', PList [PInt 1, PInt 2, PInt 3, PInt 4])])
         (PDict [(''tags'', PDict [(''$len'', PDict [(''$gt'', PInt 3)])])]) = Inr False"
proof -
  obtain dv where g: "get0 doc ''tags'' PNone None = Inr dv" using get0_total by blast
  have 1: "match_doc doc (PDict [(''tags'', PDict [(''$len'', PDict [(''$gt'', PInt n)])])])
      = Inr False
    \<or> match_doc doc (PDict [(''tags'', PDict [(''$len'', PDict [(''$gt'', PInt n)])])])
      = Inl TypeError"
  proof (cases "py_len dv")
    case (Inl e)
    with py_len_error have "e = TypeError" by blast
    with Inl g show ?thesis by simp
  next
    case (Inr m)
    with g show ?thesis by (simp add: get0_len_doc)
  qed
  have 2: "match_doc (PDict [(''tags'', PList [PInt 1, PInt 2, PInt 3, PInt 4])])
         (PDict [(''tags'', PDict [(''$len'', PDict [(''$gt'', PInt 3)])])]) = Inr False"
    by code_simp
  from 1 2 show ?thesis by blast
qed

subsection \<open>Mutation at the node a traversal reached\<close>




text \<open>
  The traversal never gets past an Index segment: on a list the read raises \<open>TypeError\<close>,
  caught as \<open>None\<close>, and on anything else the traversal returns \<open>None\<close> itself.
\<close>

lemma traverse_index:
  "isdigit k \<Longrightarrow> k \<in> set ks \<Longrightarrow> traverse obj ks None = Inr PNone"
proof (induction ks arbitrary: obj)
  case Nil
  then show ?case by simp
next
  case (Cons a ks)
  show ?case
  proof (cases "isdigit a")
    case True
    then show ?thesis
      by (auto simp: parse_key_None get_value_list_def split: pyval.splits)
  next
    case False
    with Cons.prems have "k \<in> set ks" by auto
    from Cons.IH[OF Cons.prems(1) this] False show ?thesis
      by (auto simp: parse_key_None Let_def split: pyval.splits)
  qed
qed


lemma put_at_same:
  "traverse obj ks None = Inr p \<Longrightarrow> p \<noteq> PNone \<Longrightarrow> put_at obj ks p = obj"
proof (induction ks arbitrary: obj)
  case Nil then show ?case by simp
next
  case (Cons k ks)
  from Cons.prems(1,2) have nd: "\<not> isdigit k"
    by (cases "isdigit k") (auto simp: parse_key_None get_value_list_def split: pyval.splits)
  from Cons.prems(1,2) nd obtain d where d: "obj = PDict d"
    by (cases obj) (auto simp: parse_key_None)
  from Cons.prems(1,2) nd d obtain child where c: "map_of d k = Some child" "child \<noteq> PNone"
    "traverse child ks None = Inr p"
    by (auto simp: parse_key_None get_value_dict_def Let_def split: option.splits if_splits)
  from Cons.IH[OF c(3) Cons.prems(2)] have "put_at child ks p = child" .
  with d c show ?case by (simp add: set_value_dict_def AList.update_triv)
qed

subsection \<open>The loop of has and the traversal\<close>

text \<open>
  \<open>has\<close> resolves a path the way the spec describes it: a Field segment reads a dict by
  key, an Index segment reads a list by position. The traversal that \<open>get\<close>, \<open>delete\<close> and
  \<open>pull\<close> share agrees with it on Field segments, as long as no value on the way is
  \<open>None\<close>.
\<close>

lemma has_loop_total: "\<exists>r. has_loop obj ks None = Inr r"
proof (induction ks arbitrary: obj)
  case Nil show ?case by simp
next
  case (Cons k ks)
  show ?case
  proof (cases "isdigit k")
    case True
    then show ?thesis using Cons.IH
      by (auto simp: parse_key_None split: pyval.splits option.splits)
  next
    case False
    then show ?thesis using Cons.IH
      by (auto simp: parse_key_None split: pyval.splits)
  qed
qed

lemma has_loop_append:
  "has_loop obj (ks @ ls) None =
     (case has_loop obj ks None of
        Inl e \<Rightarrow> Inl e
      | Inr None \<Rightarrow> Inr None
      | Inr (Some c) \<Rightarrow> has_loop c ls None)"
proof (induction ks arbitrary: obj)
  case Nil show ?case by simp
next
  case (Cons k ks)
  show ?case
  proof (cases "isdigit k")
    case True
    then show ?thesis using Cons.IH
      by (auto simp: parse_key_None split: pyval.splits option.splits)
  next
    case False
    then show ?thesis using Cons.IH
      by (auto simp: parse_key_None split: pyval.splits)
  qed
qed

lemma has_none_traverse:
  "has_loop obj ks None = Inr None \<Longrightarrow> traverse obj ks None = Inr PNone"
proof (induction ks arbitrary: obj)
  case Nil then show ?case by simp
next
  case (Cons k ks)
  show ?case
  proof (cases "isdigit k")
    case True
    then show ?thesis
      by (auto simp: parse_key_None get_value_list_def split: pyval.splits)
  next
    case False
    with Cons show ?thesis
      by (auto simp: parse_key_None Let_def has_key_dict_def get_value_dict_def
          split: pyval.splits option.splits if_splits)
  qed
qed

lemma has_loop_PNone: "has_loop PNone ks None = Inr (Some cur) \<Longrightarrow> cur = PNone"
  by (cases ks) (auto simp: parse_key_None split: if_splits)

lemma has_some_traverse_fields:
  "has_loop obj ks None = Inr (Some cur) \<Longrightarrow> cur \<noteq> PNone \<Longrightarrow> \<forall>k \<in> set ks. \<not> isdigit k \<Longrightarrow>
   traverse obj ks None = Inr cur"
proof (induction ks arbitrary: obj)
  case Nil then show ?case by simp
next
  case (Cons k ks)
  from Cons.prems(3) have nd: "\<not> isdigit k" and rest: "\<forall>k \<in> set ks. \<not> isdigit k" by auto
  from Cons.prems(1) nd obtain d where d: "obj = PDict d" "has_key_dict d k"
    "has_loop (get_value_dict d k) ks None = Inr (Some cur)"
    by (cases obj) (auto simp: parse_key_None split: if_splits)
  have "get_value_dict d k \<noteq> PNone"
  proof
    assume "get_value_dict d k = PNone"
    with d(3) has_loop_PNone Cons.prems(2) show False by auto
  qed
  with Cons.IH[OF d(3) Cons.prems(2) rest] nd d show ?case
    by (simp add: parse_key_None Let_def)
qed


lemma has_loop_put_at:
  "has_loop obj ks None = Inr (Some cur) \<Longrightarrow> \<forall>k \<in> set ks. \<not> isdigit k \<Longrightarrow>
   has_loop (put_at obj ks new) ks None = Inr (Some new)"
proof (induction ks arbitrary: obj)
  case Nil then show ?case by simp
next
  case (Cons k ks)
  from Cons.prems(2) have nd: "\<not> isdigit k" and rest: "\<forall>k \<in> set ks. \<not> isdigit k" by auto
  from Cons.prems(1) nd obtain d where d: "obj = PDict d" "has_key_dict d k"
    "has_loop (get_value_dict d k) ks None = Inr (Some cur)"
    by (cases obj) (auto simp: parse_key_None split: if_splits)
  from d(2) obtain child where c: "map_of d k = Some child" by (auto simp: has_key_dict_def)
  then have gv: "get_value_dict d k = child" by (simp add: get_value_dict_def)
  from Cons.IH[OF d(3) rest] gv have "has_loop (put_at child ks new) ks None = Inr (Some new)" by simp
  with nd d c show ?case
    by (simp add: parse_key_None has_key_dict_def get_value_dict_def set_value_dict_def AList.update_conv')
qed

lemma list_index_None: "list_index xs (int n) = None \<longleftrightarrow> length xs \<le> n"
  by (auto simp: list_index_def Let_def)

lemma length_list_pop: "j < length xs \<Longrightarrow> length (list_pop xs j) = length xs - 1"
  by (simp add: list_pop_def)

subsection \<open>pull with a value\<close>


text \<open>
  What \<open>pull\<close> does on a path with an Index segment, whatever the value and the index.
  With the Index as last segment, on a list and in range, the test of line 228 reads the
  list through \<open>get_value(parent, last_key)\<close> and the call ends in \<open>TypeError\<close>. With the
  Index before the last segment the traversal to the parent returns \<open>None\<close> and \<open>pull\<close>
  returns without any change. \<open>has\<close> reads the same lists with \<open>current[k]\<close>: the code
  means to index them, and misses it in \<open>get_value\<close>.
\<close>

lemma pull_index_raises:
  "traverse root (butlast (split_on (CHR ''.'') path)) None = Inr (PList xs) \<Longrightarrow>
   isdigit (last (split_on (CHR ''.'') path)) \<Longrightarrow>
   nat_of_digits (last (split_on (CHR ''.'') path)) < length xs \<Longrightarrow>
   pull root path v index None = Inl TypeError"
  by (simp add: pull_def parse_key_None get_value_list_def Let_def)

lemma pull_through_index:
  "isdigit k \<Longrightarrow> k \<in> set (butlast (split_on (CHR ''.'') path)) \<Longrightarrow>
   pull root path v index None = Inr root"
  by (simp add: pull_def Let_def traverse_index)




subsection \<open>delete and has\<close>

lemma delete_absent:
  "has root path None = Inr False \<Longrightarrow> delete root path None = Inr root"
proof -
  assume h: "has root path None = Inr False"
  define keys where "keys = split_on (CHR ''.'') path"
  define ks where "ks = butlast keys"
  define k where "k = last keys"
  have "keys \<noteq> []" by (simp add: keys_def split_on_nonempty)
  then have e: "keys = ks @ [k]" by (simp add: ks_def k_def)
  from h have hl: "has_loop root (ks @ [k]) None = Inr None"
    by (auto simp: has_def keys_def[symmetric] e split: sum.splits)
  obtain r where r: "has_loop root ks None = Inr r" using has_loop_total by blast
  have del: "delete root path None =
      (case traverse root ks None of
           Inl e \<Rightarrow> Inl e
         | Inr parent \<Rightarrow>
             if parent = PNone then Inr root
             else
               (case parse_key k None of
                  Inl e \<Rightarrow> Inl e
                | Inr (Index j) \<Rightarrow>
                    (case parent of
                       PList xs \<Rightarrow>
                         if 0 \<le> j \<and> j < int (length xs)
                         then Inr (put_at root ks (PList (list_pop xs (nat j))))
                         else Inr root
                     | _ \<Rightarrow> Inr root)
                | Inr (Field f) \<Rightarrow>
                    (case parent of
                       PDict d \<Rightarrow> Inr (put_at root ks (PDict (dict_pop d f)))
                     | _ \<Rightarrow> Inr root)))"
    unfolding delete_def Let_def ks_def k_def keys_def by (rule refl)
  show ?thesis
  proof (cases r)
    case None
    with r have "traverse root ks None = Inr PNone" by (simp add: has_none_traverse)
    then show ?thesis by (simp add: del)
  next
    case (Some c)
    with r hl have step: "has_loop c [k] None = Inr None" by (simp add: has_loop_append)
    from r Some have "traverse root ks None = Inr PNone \<or> traverse root ks None = Inr c"
      by (simp add: has_loop_traverse)
    then show ?thesis
    proof
      assume "traverse root ks None = Inr PNone"
      then show ?thesis by (simp add: del)
    next
      assume t: "traverse root ks None = Inr c"
      show ?thesis
      proof (cases "c = PNone")
        case True with t show ?thesis by (simp add: del)
      next
        case False
        show ?thesis
        proof (cases "isdigit k")
          case True
          with step t False show ?thesis
            by (auto simp: del parse_key_None list_index_None split: pyval.splits option.splits)
        next
          case nd: False
          show ?thesis
          proof (cases c)
            case (PDict d)
            with step nd have "map_of d k = None"
              by (auto simp: parse_key_None has_key_dict_def split: if_splits)
            then have "k \<notin> fst ` set d" by (simp add: map_of_eq_None_iff)
            then have "dict_pop d k = d" by (simp add: dict_pop_def)
            with t False PDict nd put_at_same[OF t False] show ?thesis
              by (simp add: del parse_key_None)
          qed (use t nd in \<open>auto simp: del parse_key_None\<close>)
        qed
      qed
    qed
  qed
qed

text \<open>A present path whose last segment is a Field, reached through Fields: the key is removed.\<close>

lemma delete_present_fields:
  "has root path None = Inr True \<Longrightarrow> \<forall>k \<in> set (split_on (CHR ''.'') path). \<not> isdigit k \<Longrightarrow>
   \<exists>r. delete root path None = Inr r \<and> has r path None = Inr False"
proof -
  assume h: "has root path None = Inr True"
    and f: "\<forall>k \<in> set (split_on (CHR ''.'') path). \<not> isdigit k"
  define keys where "keys = split_on (CHR ''.'') path"
  define ks where "ks = butlast keys"
  define k where "k = last keys"
  have "keys \<noteq> []" by (simp add: keys_def split_on_nonempty)
  then have e: "keys = ks @ [k]" by (simp add: ks_def k_def)
  from f e have nd: "\<not> isdigit k" and fs: "\<forall>k \<in> set ks. \<not> isdigit k"
    by (auto simp: keys_def[symmetric])
  from h obtain x where hl: "has_loop root (ks @ [k]) None = Inr (Some x)"
    by (auto simp: has_def keys_def[symmetric] e split: sum.splits)
  obtain r where r: "has_loop root ks None = Inr r" using has_loop_total by blast
  with hl obtain c where c: "r = Some c" "has_loop c [k] None = Inr (Some x)"
    by (cases r) (auto simp: has_loop_append)
  from c(2) nd obtain d where d: "c = PDict d" "has_key_dict d k"
    by (cases c) (auto simp: parse_key_None split: if_splits)
  from d have cn: "c \<noteq> PNone" by simp
  from r c(1) have rc: "has_loop root ks None = Inr (Some c)" by simp
  from has_some_traverse_fields[OF rc cn fs] have t: "traverse root ks None = Inr c" .
  let ?r = "put_at root ks (PDict (dict_pop d k))"
  have del: "delete root path None = Inr ?r"
    using t d nd
    by (simp add: delete_def keys_def[symmetric] ks_def[symmetric] k_def[symmetric] Let_def parse_key_None)
  have "has_loop ?r ks None = Inr (Some (PDict (dict_pop d k)))"
    by (rule has_loop_put_at[OF rc fs])
  then have "has_loop ?r (ks @ [k]) None = Inr None"
    using nd by (simp add: has_loop_append parse_key_None has_key_dict_def dict_pop_def AList.delete_conv')
  then have "has ?r path None = Inr False"
    by (simp add: has_def keys_def[symmetric] e)
  with del show ?thesis by blast
qed

lemma delete_field_last:
  "has root path None = Inr True \<Longrightarrow>
   \<forall>k \<in> set (butlast (split_on (CHR ''.'') path)). \<not> isdigit k \<Longrightarrow>
   \<not> isdigit (last (split_on (CHR ''.'') path)) \<Longrightarrow>
   \<exists>r. delete root path None = Inr r \<and> has r path None = Inr False"
proof -
  assume h: "has root path None = Inr True"
    and fs0: "\<forall>k \<in> set (butlast (split_on (CHR ''.'') path)). \<not> isdigit k"
    and nd0: "\<not> isdigit (last (split_on (CHR ''.'') path))"
  have ne: "split_on (CHR ''.'') path \<noteq> []" by (rule split_on_nonempty)
  have "\<forall>k \<in> set (split_on (CHR ''.'') path). \<not> isdigit k"
  proof
    fix k assume "k \<in> set (split_on (CHR ''.'') path)"
    then have "k \<in> set (butlast (split_on (CHR ''.'') path) @ [last (split_on (CHR ''.'') path)])"
      using ne by simp
    then show "\<not> isdigit k" using fs0 nd0 by auto
  qed
  from delete_present_fields[OF h this] show ?thesis .
qed

text \<open>
  A present path whose last segment is an Index \<open>j\<close>, reached through Fields: the parent is
  a list \<open>xs\<close>, \<open>xs.pop(j)\<close> removes the element and moves the later ones down by one, and
  the path is still present exactly when there was an element after position \<open>j\<close>.
\<close>

lemma delete_index_last:
  "has root path None = Inr True \<Longrightarrow>
   \<forall>k \<in> set (butlast (split_on (CHR ''.'') path)). \<not> isdigit k \<Longrightarrow>
   isdigit (last (split_on (CHR ''.'') path)) \<Longrightarrow>
   \<exists>r xs. has_loop root (butlast (split_on (CHR ''.'') path)) None = Inr (Some (PList xs)) \<and>
          delete root path None = Inr r \<and>
          has_loop r (butlast (split_on (CHR ''.'') path)) None
            = Inr (Some (PList (list_pop xs (nat_of_digits (last (split_on (CHR ''.'') path)))))) \<and>
          has r path None = Inr (nat_of_digits (last (split_on (CHR ''.'') path)) + 1 < length xs)"
proof -
  assume h: "has root path None = Inr True"
    and fs0: "\<forall>k \<in> set (butlast (split_on (CHR ''.'') path)). \<not> isdigit k"
    and dg0: "isdigit (last (split_on (CHR ''.'') path))"
  define keys where "keys = split_on (CHR ''.'') path"
  define ks where "ks = butlast keys"
  define k where "k = last keys"
  define j where "j = nat_of_digits k"
  have "keys \<noteq> []" by (simp add: keys_def split_on_nonempty)
  then have e: "keys = ks @ [k]" by (simp add: ks_def k_def)
  from fs0 have fs: "\<forall>k \<in> set ks. \<not> isdigit k" by (simp add: ks_def keys_def)
  from dg0 have dg: "isdigit k" by (simp add: k_def keys_def)
  from h obtain x where hl: "has_loop root (ks @ [k]) None = Inr (Some x)"
    by (auto simp: has_def keys_def[symmetric] e split: sum.splits)
  obtain r where r: "has_loop root ks None = Inr r" using has_loop_total by blast
  with hl obtain c where c: "r = Some c" "has_loop c [k] None = Inr (Some x)"
    by (cases r) (auto simp: has_loop_append)
  from c(2) dg obtain xs where xs: "c = PList xs" "list_index xs (int j) \<noteq> None"
    by (cases c) (auto simp: parse_key_None j_def split: option.splits)
  from xs(2) have jl: "j < length xs" by (simp add: list_index_None)
  from r c(1) xs(1) have rc: "has_loop root ks None = Inr (Some (PList xs))" by simp
  from has_some_traverse_fields[OF rc _ fs] have t: "traverse root ks None = Inr (PList xs)" by simp
  let ?r = "put_at root ks (PList (list_pop xs j))"
  have del: "delete root path None = Inr ?r"
    using t dg jl
    by (simp add: delete_def keys_def[symmetric] ks_def[symmetric] k_def[symmetric] Let_def
        parse_key_None j_def[symmetric])
  have hp: "has_loop ?r ks None = Inr (Some (PList (list_pop xs j)))"
    by (rule has_loop_put_at[OF rc fs])
  have "has_loop ?r (ks @ [k]) None =
      (case list_index (list_pop xs j) (int j) of None \<Rightarrow> Inr None | Some child \<Rightarrow> Inr (Some child))"
    using dg hp by (simp add: has_loop_append parse_key_None j_def[symmetric] split: option.splits)
  then have "has ?r path None = Inr (list_index (list_pop xs j) (int j) \<noteq> None)"
    by (simp add: has_def keys_def[symmetric] e split: option.splits)
  also have "(list_index (list_pop xs j) (int j) \<noteq> None) = (j + 1 < length xs)"
    using jl by (auto simp: list_index_None length_list_pop)
  finally have ha: "has ?r path None = Inr (j + 1 < length xs)" .
  from rc del hp ha show ?thesis
    unfolding j_def k_def ks_def keys_def by blast
qed

text \<open>
  With an Index before the last segment the traversal to the parent returns \<open>None\<close>, and
  \<open>delete\<close> returns without any change, also when the path is present: the miss at
  Index segments again.
\<close>

lemma delete_through_index:
  "isdigit k \<Longrightarrow> k \<in> set (butlast (split_on (CHR ''.'') path)) \<Longrightarrow>
   delete root path None = Inr root"
  by (simp add: delete_def Let_def traverse_index)

text \<open>
  C9, as the spec states it: after \<open>delete(root, p)\<close> of a present path, \<open>has(root, p)\<close> is
  false. Two inputs where the code does something else.

  \<^item> On \<open>{"a": [1, 2]}\<close> the path \<open>a.0\<close> is present; \<open>delete\<close> pops the element, the
    list is \<open>[2]\<close>, and \<open>a.0\<close> is present still. This is what \<open>list.pop\<close> is.
  \<^item> On \<open>{"a": [{"b": 1}]}\<close> the path \<open>a.0.b\<close> is present; \<open>delete\<close> changes nothing and
    the path is present still: the miss at Index segments.
\<close>

theorem delete_has_counterexample:
  "(has (PDict [(''a'', PList [PInt 1, PInt 2])]) ''a.0'' None = Inr True \<and>
    delete (PDict [(''a'', PList [PInt 1, PInt 2])]) ''a.0'' None = Inr (PDict [(''a'', PList [PInt 2])]) \<and>
    has (PDict [(''a'', PList [PInt 2])]) ''a.0'' None = Inr True) \<and>
   (has (PDict [(''a'', PList [PDict [(''b'', PInt 1)]])]) ''a.0.b'' None = Inr True \<and>
    delete (PDict [(''a'', PList [PDict [(''b'', PInt 1)]])]) ''a.0.b'' None
      = Inr (PDict [(''a'', PList [PDict [(''b'', PInt 1)]])]))"
  by code_simp

text \<open>
  C9, amended, for the default index prefix and a root built of dicts, lists and
  scalars.

  \<^item> When \<open>has(root, p)\<close> is false (the parent path does not resolve, or the last
    segment's target is absent), \<open>delete(root, p)\<close> returns and the root is as it was.
  \<^item> When \<open>has(root, p)\<close> is true, no segment before the last is an Index, and the last
    segment is a Field, \<open>delete\<close> returns and \<open>has(root, p)\<close> is false afterwards.
  \<^item> When \<open>has(root, p)\<close> is true, no segment before the last is an Index, and the last
    segment is the Index \<open>j\<close>, the parent is a list \<open>xs\<close>; \<open>delete\<close> returns, the parent
    is \<open>xs\<close> without its element \<open>j\<close>, and afterwards \<open>has(root, p)\<close> is true exactly when
    \<open>j + 1 < len(xs)\<close>: false for the last element, true when a later element has
    moved to position \<open>j\<close>.

  Present paths with an Index before the last segment are left out:
  \<open>delete_through_index\<close> says what the code does there.
\<close>

theorem delete_has:
  "(has root path None = Inr False \<longrightarrow> delete root path None = Inr root) \<and>
   (has root path None = Inr True \<and>
    (\<forall>k \<in> set (butlast (split_on (CHR ''.'') path)). \<not> isdigit k) \<and>
    \<not> isdigit (last (split_on (CHR ''.'') path)) \<longrightarrow>
      (\<exists>r. delete root path None = Inr r \<and> has r path None = Inr False)) \<and>
   (has root path None = Inr True \<and>
    (\<forall>k \<in> set (butlast (split_on (CHR ''.'') path)). \<not> isdigit k) \<and>
    isdigit (last (split_on (CHR ''.'') path)) \<longrightarrow>
      (\<exists>r xs. has_loop root (butlast (split_on (CHR ''.'') path)) None = Inr (Some (PList xs)) \<and>
              delete root path None = Inr r \<and>
              has_loop r (butlast (split_on (CHR ''.'') path)) None
                = Inr (Some (PList (list_pop xs (nat_of_digits (last (split_on (CHR ''.'') path)))))) \<and>
              has r path None = Inr (nat_of_digits (last (split_on (CHR ''.'') path)) + 1 < length xs)))"
proof (intro conjI impI)
  assume "has root path None = Inr False"
  then show "delete root path None = Inr root" by (rule delete_absent)
next
  assume a: "has root path None = Inr True \<and>
    (\<forall>k \<in> set (butlast (split_on (CHR ''.'') path)). \<not> isdigit k) \<and>
    \<not> isdigit (last (split_on (CHR ''.'') path))"
  from delete_field_last[OF conjunct1[OF a] conjunct1[OF conjunct2[OF a]] conjunct2[OF conjunct2[OF a]]]
  show "\<exists>r. delete root path None = Inr r \<and> has r path None = Inr False" .
next
  assume a: "has root path None = Inr True \<and>
    (\<forall>k \<in> set (butlast (split_on (CHR ''.'') path)). \<not> isdigit k) \<and>
    isdigit (last (split_on (CHR ''.'') path))"
  from delete_index_last[OF conjunct1[OF a] conjunct1[OF conjunct2[OF a]] conjunct2[OF conjunct2[OF a]]]
  show "\<exists>r xs. has_loop root (butlast (split_on (CHR ''.'') path)) None = Inr (Some (PList xs)) \<and>
              delete root path None = Inr r \<and>
              has_loop r (butlast (split_on (CHR ''.'') path)) None
                = Inr (Some (PList (list_pop xs (nat_of_digits (last (split_on (CHR ''.'') path)))))) \<and>
              has r path None = Inr (nat_of_digits (last (split_on (CHR ''.'') path)) + 1 < length xs)" .
qed

theorem delete_has_witness:
  "(has (PDict [(''a'', PDict [(''c'', PInt 2)])]) ''a.b'' None = Inr False \<and>
    delete (PDict [(''a'', PDict [(''c'', PInt 2)])]) ''a.b'' None
      = Inr (PDict [(''a'', PDict [(''c'', PInt 2)])])) \<and>
   (has (PDict [(''a'', PDict [(''b'', PInt 1), (''c'', PInt 2)])]) ''a.b'' None = Inr True \<and>
    delete (PDict [(''a'', PDict [(''b'', PInt 1), (''c'', PInt 2)])]) ''a.b'' None
      = Inr (PDict [(''a'', PDict [(''c'', PInt 2)])])) \<and>
   (has (PDict [(''a'', PList [PInt 1, PInt 2])]) ''a.1'' None = Inr True \<and>
    delete (PDict [(''a'', PList [PInt 1, PInt 2])]) ''a.1'' None = Inr (PDict [(''a'', PList [PInt 1])]) \<and>
    has (PDict [(''a'', PList [PInt 1])]) ''a.1'' None = Inr False) \<and>
   (has (PDict [(''a'', PList [PInt 1, PInt 2, PInt 3])]) ''a.1'' None = Inr True \<and>
    delete (PDict [(''a'', PList [PInt 1, PInt 2, PInt 3])]) ''a.1'' None
      = Inr (PDict [(''a'', PList [PInt 1, PInt 3])]) \<and>
    has (PDict [(''a'', PList [PInt 1, PInt 3])]) ''a.1'' None = Inr True)"
proof -
  let ?r0 = "PDict [(''a'', PDict [(''c'', PInt 2)])]"
  let ?r1 = "PDict [(''a'', PDict [(''b'', PInt 1), (''c'', PInt 2)])]"
  let ?r2 = "PDict [(''a'', PList [PInt 1, PInt 2])]"
  let ?r3 = "PDict [(''a'', PList [PInt 1, PInt 2, PInt 3])]"
  have bl: "butlast (split_on (CHR ''.'') ''a.b'') = [''a'']" "last (split_on (CHR ''.'') ''a.b'') = ''b''"
    "butlast (split_on (CHR ''.'') ''a.1'') = [''a'']" "last (split_on (CHR ''.'') ''a.1'') = ''1''"
    by simp_all
  have dg: "\<not> isdigit ''a''" "\<not> isdigit ''b''" "isdigit ''1''" "nat_of_digits ''1'' = 1"
    by (simp_all add: isdigit_def is_digit_def nat_of_digits_def digit_val_def)
  have h0: "has ?r0 ''a.b'' None = Inr False" by code_simp
  from delete_has[of ?r0 "''a.b''"] h0
  have d0: "delete ?r0 ''a.b'' None = Inr ?r0" by (rule conjunct1[THEN mp])
  have h1: "has ?r1 ''a.b'' None = Inr True" by code_simp
  have d1: "delete ?r1 ''a.b'' None = Inr ?r0" by code_simp
  from delete_has[of ?r1 "''a.b''", THEN conjunct2, THEN conjunct1] h1 bl dg
  have "\<exists>r. delete ?r1 ''a.b'' None = Inr r \<and> has r ''a.b'' None = Inr False" by simp
  with d1 have a1: "has ?r0 ''a.b'' None = Inr False" by simp
  have h2: "has ?r2 ''a.1'' None = Inr True" by code_simp
  have d2: "delete ?r2 ''a.1'' None = Inr (PDict [(''a'', PList [PInt 1])])" by code_simp
  have p2: "has_loop ?r2 [''a''] None = Inr (Some (PList [PInt 1, PInt 2]))" by code_simp
  from delete_has[of ?r2 "''a.1''", THEN conjunct2, THEN conjunct2] h2 bl dg
  have "\<exists>r xs. has_loop ?r2 [''a''] None = Inr (Some (PList xs)) \<and>
           delete ?r2 ''a.1'' None = Inr r \<and>
           has_loop r [''a''] None = Inr (Some (PList (list_pop xs 1))) \<and>
           has r ''a.1'' None = Inr (1 + 1 < length xs)" by simp
  with d2 p2 have a2: "has (PDict [(''a'', PList [PInt 1])]) ''a.1'' None = Inr False" by auto
  have h3: "has ?r3 ''a.1'' None = Inr True" by code_simp
  have d3: "delete ?r3 ''a.1'' None = Inr (PDict [(''a'', PList [PInt 1, PInt 3])])" by code_simp
  have p3: "has_loop ?r3 [''a''] None = Inr (Some (PList [PInt 1, PInt 2, PInt 3]))" by code_simp
  from delete_has[of ?r3 "''a.1''", THEN conjunct2, THEN conjunct2] h3 bl dg
  have "\<exists>r xs. has_loop ?r3 [''a''] None = Inr (Some (PList xs)) \<and>
           delete ?r3 ''a.1'' None = Inr r \<and>
           has_loop r [''a''] None = Inr (Some (PList (list_pop xs 1))) \<and>
           has r ''a.1'' None = Inr (1 + 1 < length xs)" by simp
  with d3 p3 have a3: "has (PDict [(''a'', PList [PInt 1, PInt 3])]) ''a.1'' None = Inr True" by auto
  from h0 d0 h1 d1 h2 d2 a2 h3 d3 a3 show ?thesis by simp
qed

subsection \<open>The round trip on Field segments\<close>

text \<open>
  Where no segment is an Index and the traversal meets no list, \<open>set\<close> returns and \<open>get\<close>
  reads the value back. The same holds for \<open>push\<close> on the example below.
\<close>

lemma compatible_empty: "compatible (PDict []) ks"
  by (cases ks) auto

lemma set_loop_fields:
  "\<forall>k \<in> set ks. \<not> isdigit k \<Longrightarrow> \<not> isdigit last_key \<Longrightarrow> compatible cur ks \<Longrightarrow>
   \<exists>r. set_loop cur ks last_key v None = Inr r \<and> is_dict_object r \<and>
       traverse r (ks @ [last_key]) None = Inr v"
proof (induction ks arbitrary: cur)
  case Nil
  then obtain d where "cur = PDict d" by (cases cur) auto
  with Nil show ?case
    by (auto simp: set_last_def parse_key_None set_value_dict_def get_value_dict_def
        AList.update_conv' Let_def)
next
  case (Cons k ks)
  from Cons.prems(1) have nd: "\<not> isdigit k" and rest: "\<forall>k \<in> set ks. \<not> isdigit k" by auto
  from Cons.prems(3) obtain d where d: "cur = PDict d" by (cases cur) auto
  define d1 where "d1 = (if \<not> has_key_dict d k
                        \<or> \<not> (is_dict_object (get_value_dict d k) \<or> is_list_object (get_value_dict d k))
                     then set_value_dict d k (PDict []) else d)"
  have comp: "compatible (get_value_dict d1 k) ks"
  proof (cases "map_of d k")
    case None
    then show ?thesis
      by (simp add: d1_def has_key_dict_def get_value_dict_def set_value_dict_def
          AList.update_conv' compatible_empty)
  next
    case (Some c)
    with Cons.prems(3) d show ?thesis
      by (cases c) (auto simp: d1_def has_key_dict_def get_value_dict_def set_value_dict_def
          AList.update_conv' compatible_empty)
  qed
  from Cons.IH[OF rest Cons.prems(2) comp]
  obtain c' where c': "set_loop (get_value_dict d1 k) ks last_key v None = Inr c'"
    "is_dict_object c'" "traverse c' (ks @ [last_key]) None = Inr v" by blast
  from c'(2) have cn: "c' \<noteq> PNone" by auto
  have "set_loop cur (k # ks) last_key v None =
      (case set_loop (get_value_dict d1 k) ks last_key v None of
         Inl e \<Rightarrow> Inl e
       | Inr child' \<Rightarrow> Inr (PDict (set_value_dict d1 k child')))"
    using nd d by (simp add: parse_key_None d1_def Let_def cong: sum.case_cong)
  with c'(1) have sl: "set_loop cur (k # ks) last_key v None = Inr (PDict (set_value_dict d1 k c'))"
    by simp
  have "get_value_dict (set_value_dict d1 k c') k = c'"
    by (simp add: get_value_dict_def set_value_dict_def AList.update_conv')
  with cn c'(3) nd
  have "traverse (PDict (set_value_dict d1 k c')) ((k # ks) @ [last_key]) None = Inr v"
    by (simp add: parse_key_None Let_def)
  with sl show ?case by simp
qed

lemma set_get_fields:
  "\<forall>k \<in> set (split_on (CHR ''.'') path). \<not> isdigit k \<Longrightarrow>
   compatible root (butlast (split_on (CHR ''.'') path)) \<Longrightarrow>
   \<exists>r. set_py root path v None = Inr r \<and> get r path PNone None PNone = Inr v"
proof -
  assume f: "\<forall>k \<in> set (split_on (CHR ''.'') path). \<not> isdigit k"
    and c: "compatible root (butlast (split_on (CHR ''.'') path))"
  define keys where "keys = split_on (CHR ''.'') path"
  have ne: "keys \<noteq> []" by (simp add: keys_def split_on_nonempty)
  then have e: "butlast keys @ [last keys] = keys" by simp
  from f ne have f1: "\<forall>k \<in> set (butlast keys). \<not> isdigit k" and f2: "\<not> isdigit (last keys)"
    by (auto simp: keys_def[symmetric] dest: in_set_butlastD)
  from set_loop_fields[OF f1 f2 c[folded keys_def], of v]
  obtain r where r: "set_loop root (butlast keys) (last keys) v None = Inr r"
    "traverse r keys None = Inr v" by (auto simp: e)
  then show ?thesis
    by (auto simp: set_py_def get_def keys_def[symmetric] Let_def)
qed

lemma push_twice_example:
  "push (PDict []) ''a.b'' (PInt 1) None = Inr (PDict [(''a'', PDict [(''b'', PList [PInt 1])])]) \<and>
   push (PDict [(''a'', PDict [(''b'', PList [PInt 1])])]) ''a.b'' (PInt 2) None
     = Inr (PDict [(''a'', PDict [(''b'', PList [PInt 1, PInt 2])])]) \<and>
   get (PDict [(''a'', PDict [(''b'', PList [PInt 1, PInt 2])])]) ''a.b'' PNone None PNone
     = Inr (PList [PInt 1, PInt 2])"
  by code_simp

end
